theory Spec2Isabelle
  imports Main "HOL-Library.AList"
begin

section \<open>Python values, dictionaries and exceptions\<close>

text \<open>
  The values a metadata mapping can hold. \<open>PObj s\<close> is any other Python object (one the
  JSON encoder does not know), represented by the string \<open>str()\<close> gives for it.
  Strings are byte strings (UTF-8). Floating-point values are outside the model.
\<close>

datatype pyval =
    PNone
  | PBool bool
  | PInt int
  | PStr string
  | PList "pyval list"
  | PDict "(string \<times> pyval) list"
  | PObj string

text \<open>
  A Python \<open>dict\<close> with string keys, in insertion order. \<open>d[k] = v\<close> is
  \<open>AList.update k v d\<close> (the value is replaced in place when the key is there, and
  appended otherwise), \<open>d.get(k, dflt)\<close> is \<open>dict_get\<close>.
\<close>

type_synonym dict = "(string \<times> pyval) list"

definition dict_get :: "dict \<Rightarrow> string \<Rightarrow> pyval \<Rightarrow> pyval" where
  "dict_get d k dflt = (case map_of d k of Some v \<Rightarrow> v | None \<Rightarrow> dflt)"

datatype exc_class = TypeError | ValueError | AttributeError | OtherException

text \<open>An exception: its class and its message (what \<open>str(e)\<close> and an f-string give).\<close>

datatype py_exception = PyExc (exc_cls: exc_class) (exc_msg: string)

section \<open>The component and its inputs\<close>

text \<open>
  \<open>Data\<close>, \<open>DataFrame\<close> and \<open>Message\<close> are classes of the host library (lfx).
  A \<open>Data\<close> holds a dict, the key of its text and the default text; a \<open>DataFrame\<close>
  holds rows (one dict per row) and the key of the text column.
\<close>

record data =
  d_data :: dict
  d_text_key :: string
  d_default_value :: string

record dataframe =
  df_rows :: "dict list"
  df_text_key :: string
  df_default_value :: string

text \<open>An element of a list input: a \<open>Data\<close> instance, or any other object.\<close>

datatype element = DataElem data | OtherElem

text \<open>
  What \<open>self.data_inputs\<close> can be. A \<open>Message\<close> is given by the \<open>Data\<close> that its
  \<open>to_data()\<close> returns. \<open>NoneIn\<close> is \<open>None\<close>.
\<close>

datatype data_inputs =
    DataFrameIn dataframe
  | MessageIn data
  | DataIn data
  | ListIn "element list"
  | NoneIn

text \<open>The \<open>keep_separator\<close> option: the dropdown gives a string, the splitter takes
  a boolean or the strings \<open>start\<close> and \<open>end\<close>.\<close>

datatype keep_sep = KeepBool bool | KeepStr string

record component =
  data_inputs :: data_inputs
  chunk_overlap :: int
  chunk_size :: int
  separator :: string
  text_key :: string
  keep_separator :: keep_sep

text \<open>A langchain \<open>Document\<close> as \<open>to_lc_document\<close> builds it: the text and the
  metadata dict, by value.\<close>

record vdocument =
  v_page_content :: string
  v_metadata :: dict

text \<open>The arguments \<open>CharacterTextSplitter\<close> is built with.\<close>

record splitter_args =
  sp_chunk_overlap :: int
  sp_chunk_size :: int
  sp_separator :: string
  sp_keep_separator :: keep_sep

text \<open>
  The external collaborators, as parameters of the pipeline: none of them is code of
  this repository.
  \<^item> \<open>unescape_string\<close>: \<open>lfx.utils.util.unescape_string\<close>;
  \<^item> \<open>to_lc_document\<close>, \<open>to_lc_documents\<close>: the conversions of \<open>Data\<close> and
    \<open>DataFrame\<close> to documents, which may raise;
  \<^item> \<open>splitter_init\<close>: what the constructor of \<open>CharacterTextSplitter\<close> raises, if
    anything; \<open>splitter_split_text\<close>: its \<open>split_text\<close> on one text;
  \<^item> \<open>uuid4\<close>: the \<open>n\<close>-th value \<open>str(uuid.uuid4())\<close> returns;
  \<^item> \<open>utcnow\<close>: the \<open>n\<close>-th value \<open>datetime.utcnow().isoformat()\<close> returns.
\<close>

record collab =
  unescape_string :: "string \<Rightarrow> string"
  to_lc_document :: "data \<Rightarrow> py_exception + vdocument"
  to_lc_documents :: "dataframe \<Rightarrow> py_exception + vdocument list"
  splitter_init :: "splitter_args \<Rightarrow> py_exception option"
  splitter_split_text :: "splitter_args \<Rightarrow> string \<Rightarrow> py_exception + string list"
  uuid4 :: "nat \<Rightarrow> string"
  utcnow :: "nat \<Rightarrow> string"

section \<open>Separator resolution\<close>

definition fix_separator :: "string \<Rightarrow> string" where
  "fix_separator sep =
     (if sep = ''/n'' then [CHR 0x0A]
      else if sep = ''/t'' then [CHR 0x09]
      else sep)"

section \<open>JSON encoding of a metadata mapping\<close>

text \<open>
  Modelled from the spec: the JSON encoder, \<open>json.dumps\<close> of the standard library, is
  not under \<open>src/\<close>. The mapper serialises the metadata mapping to a JSON string,
  non-ASCII characters preserved and non-serialisable values coerced by string
  conversion: \<open>json.dumps(metadata, ensure_ascii=False, default=str)\<close>. The
  separators are \<open>", "\<close> and \<open>": "\<close>; a string is quoted, with the quote, the
  backslash and the control characters below 0x20 escaped and every other character
  (non-ASCII bytes included) written as it is; an object the encoder does not know is
  replaced by \<open>str()\<close> of it, so it is encoded as a string.
\<close>

definition hex_digit :: "nat \<Rightarrow> char" where
  "hex_digit n = (if n < 10 then char_of (48 + n) else char_of (87 + n))"

fun digits_of :: "nat \<Rightarrow> string" where
  "digits_of n =
     (if n < 10 then [char_of (48 + n)]
      else digits_of (n div 10) @ [char_of (48 + n mod 10)])"

declare digits_of.simps [simp del]

definition encode_int :: "int \<Rightarrow> string" where
  "encode_int i = (if i < 0 then CHR ''-'' # digits_of (nat (- i)) else digits_of (nat i))"

definition escape_char :: "char \<Rightarrow> string" where
  "escape_char ch =
     (if ch = CHR 0x22 then [CHR 0x5C, CHR 0x22]
      else if ch = CHR 0x5C then [CHR 0x5C, CHR 0x5C]
      else if ch = CHR 0x0A then [CHR 0x5C, CHR ''n'']
      else if ch = CHR 0x0D then [CHR 0x5C, CHR ''r'']
      else if ch = CHR 0x09 then [CHR 0x5C, CHR ''t'']
      else if ch = CHR 0x08 then [CHR 0x5C, CHR ''b'']
      else if ch = CHR 0x0C then [CHR 0x5C, CHR ''f'']
      else if (of_char ch :: nat) < 32
        then [CHR 0x5C, CHR ''u'', CHR ''0'', CHR ''0'',
              hex_digit ((of_char ch :: nat) div 16), hex_digit ((of_char ch :: nat) mod 16)]
      else [ch])"

definition encode_string :: "string \<Rightarrow> string" where
  "encode_string s = CHR 0x22 # concat (map escape_char s) @ [CHR 0x22]"

fun json_encode :: "pyval \<Rightarrow> string"
  and encode_items :: "pyval list \<Rightarrow> string"
  and encode_members :: "(string \<times> pyval) list \<Rightarrow> string"
where
  "json_encode PNone = ''null''"
| "json_encode (PBool b) = (if b then ''true'' else ''false'')"
| "json_encode (PInt i) = encode_int i"
| "json_encode (PStr s) = encode_string s"
| "json_encode (PObj s) = encode_string s"
| "json_encode (PList xs) = ''['' @ encode_items xs @ '']''"
| "json_encode (PDict ms) = ''{'' @ encode_members ms @ ''}''"
| "encode_items [] = []"
| "encode_items [x] = json_encode x"
| "encode_items (x # y # ys) = json_encode x @ '', '' @ encode_items (y # ys)"
| "encode_members [] = []"
| "encode_members [(k, v)] = encode_string k @ '': '' @ json_encode v"
| "encode_members ((k, v) # m # ms) =
     encode_string k @ '': '' @ json_encode v @ '', '' @ encode_members (m # ms)"

definition json_dumps :: "dict \<Rightarrow> string" where
  "json_dumps metadata = json_encode (PDict metadata)"

section \<open>Reading the JSON back\<close>

text \<open>
  Modelled from the spec: the JSON parser, \<open>json.loads\<close> of the standard library, is
  not under \<open>src/\<close>; the metadata column is read back with it. It reads the
  documents the encoder writes and JSON in general, apart from floating-point numbers
  and surrogate escapes, which are refused. An object is
  read as its members in document order (the encoder never writes a key twice).
  The recursion runs on fuel, one unit per nested value or member; \<open>json_loads\<close>
  gives it more than the length of the text.
\<close>

definition is_ws :: "char \<Rightarrow> bool" where
  "is_ws ch = (ch = CHR '' '' \<or> ch = CHR 0x09 \<or> ch = CHR 0x0A \<or> ch = CHR 0x0D)"

definition skip_ws :: "string \<Rightarrow> string" where
  "skip_ws s = dropWhile is_ws s"

definition is_digit :: "char \<Rightarrow> bool" where
  "is_digit ch = (48 \<le> (of_char ch :: nat) \<and> (of_char ch :: nat) \<le> 57)"

definition digits_val :: "string \<Rightarrow> nat" where
  "digits_val ds = foldl (\<lambda>acc d. 10 * acc + ((of_char d :: nat) - 48)) 0 ds"

definition hex_val :: "char \<Rightarrow> nat option" where
  "hex_val ch =
     (let n = (of_char ch :: nat) in
      if 48 \<le> n \<and> n \<le> 57 then Some (n - 48)
      else if 97 \<le> n \<and> n \<le> 102 then Some (n - 87)
      else if 65 \<le> n \<and> n \<le> 70 then Some (n - 55)
      else None)"

definition utf8 :: "nat \<Rightarrow> string option" where
  "utf8 n =
     (if n < 128 then Some [char_of n]
      else if n < 2048 then Some [char_of (192 + n div 64), char_of (128 + n mod 64)]
      else if 55296 \<le> n \<and> n < 57344 then None
      else Some [char_of (224 + n div 4096), char_of (128 + n div 64 mod 64),
                 char_of (128 + n mod 64)])"

definition unicode_escape :: "string \<Rightarrow> string option" where
  "unicode_escape hs =
     (case map hex_val hs of
        [Some a, Some b, Some c, Some d] \<Rightarrow> utf8 (((a * 16 + b) * 16 + c) * 16 + d)
      | _ \<Rightarrow> None)"

definition simple_escape :: "char \<Rightarrow> char option" where
  "simple_escape e =
     (if e = CHR 0x22 then Some (CHR 0x22)
      else if e = CHR 0x5C then Some (CHR 0x5C)
      else if e = CHR ''/'' then Some (CHR ''/'')
      else if e = CHR ''n'' then Some (CHR 0x0A)
      else if e = CHR ''r'' then Some (CHR 0x0D)
      else if e = CHR ''t'' then Some (CHR 0x09)
      else if e = CHR ''b'' then Some (CHR 0x08)
      else if e = CHR ''f'' then Some (CHR 0x0C)
      else None)"

function parse_chars :: "string \<Rightarrow> (string \<times> string) option" where
  "parse_chars [] = None"
| "parse_chars (ch # cs) =
     (if ch = CHR 0x22 then Some ([], cs)
      else if ch = CHR 0x5C then
        (case cs of
           [] \<Rightarrow> None
         | e # rest \<Rightarrow>
             if e = CHR ''u'' then
               (case unicode_escape (take 4 rest) of
                  None \<Rightarrow> None
                | Some bytes \<Rightarrow>
                    (case parse_chars (drop 4 rest) of
                       None \<Rightarrow> None
                     | Some (s, r) \<Rightarrow> Some (bytes @ s, r)))
             else
               (case simple_escape e of
                  None \<Rightarrow> None
                | Some x \<Rightarrow>
                    (case parse_chars rest of
                       None \<Rightarrow> None
                     | Some (s, r) \<Rightarrow> Some (x # s, r))))
      else if (of_char ch :: nat) < 32 then None
      else (case parse_chars cs of
              None \<Rightarrow> None
            | Some (s, r) \<Rightarrow> Some (ch # s, r)))"
  by pat_completeness auto
termination
  by (relation "measure length") auto

declare parse_chars.simps [simp del]

definition parse_int :: "string \<Rightarrow> (pyval \<times> string) option" where
  "parse_int s =
     (let neg = (s \<noteq> [] \<and> hd s = CHR ''-'');
          body = (if neg then tl s else s);
          ds = takeWhile is_digit body;
          r = dropWhile is_digit body
      in if ds = [] \<or> (length ds > 1 \<and> hd ds = CHR ''0'') then None
         else if r \<noteq> [] \<and> (hd r = CHR ''.'' \<or> hd r = CHR ''e'' \<or> hd r = CHR ''E'') then None
         else Some (PInt (if neg then - int (digits_val ds) else int (digits_val ds)), r))"

fun parse_value :: "nat \<Rightarrow> string \<Rightarrow> (pyval \<times> string) option"
  and parse_items :: "nat \<Rightarrow> string \<Rightarrow> (pyval list \<times> string) option"
  and parse_members :: "nat \<Rightarrow> string \<Rightarrow> ((string \<times> pyval) list \<times> string) option"
where
  "parse_value 0 s = None"
| "parse_value (Suc f) s =
     (case skip_ws s of
        [] \<Rightarrow> None
      | ch # cs \<Rightarrow>
          if ch = CHR 0x22 then
            (case parse_chars cs of None \<Rightarrow> None | Some (x, r) \<Rightarrow> Some (PStr x, r))
          else if ch = CHR ''['' then
            (if take 1 (skip_ws cs) = '']'' then Some (PList [], drop 1 (skip_ws cs))
             else (case parse_items f cs of None \<Rightarrow> None | Some (xs, r) \<Rightarrow> Some (PList xs, r)))
          else if ch = CHR ''{'' then
            (if take 1 (skip_ws cs) = ''}'' then Some (PDict [], drop 1 (skip_ws cs))
             else (case parse_members f cs of None \<Rightarrow> None | Some (ms, r) \<Rightarrow> Some (PDict ms, r)))
          else if take 4 (ch # cs) = ''null'' then Some (PNone, drop 4 (ch # cs))
          else if take 4 (ch # cs) = ''true'' then Some (PBool True, drop 4 (ch # cs))
          else if take 5 (ch # cs) = ''false'' then Some (PBool False, drop 5 (ch # cs))
          else parse_int (ch # cs))"
| "parse_items 0 s = None"
| "parse_items (Suc f) s =
     (case parse_value f s of
        None \<Rightarrow> None
      | Some (x, r) \<Rightarrow>
          (case skip_ws r of
             [] \<Rightarrow> None
           | ch # r1 \<Rightarrow>
               if ch = CHR '']'' then Some ([x], r1)
               else if ch = CHR '','' then
                 (case parse_items f r1 of None \<Rightarrow> None | Some (xs, r2) \<Rightarrow> Some (x # xs, r2))
               else None))"
| "parse_members 0 s = None"
| "parse_members (Suc f) s =
     (case skip_ws s of
        [] \<Rightarrow> None
      | q # cs \<Rightarrow>
          if q \<noteq> CHR 0x22 then None
          else (case parse_chars cs of
                  None \<Rightarrow> None
                | Some (k, r) \<Rightarrow>
                    (case skip_ws r of
                       [] \<Rightarrow> None
                     | colon # r1 \<Rightarrow>
                         if colon \<noteq> CHR '':'' then None
                         else (case parse_value f r1 of
                                 None \<Rightarrow> None
                               | Some (v, r2) \<Rightarrow>
                                   (case skip_ws r2 of
                                      [] \<Rightarrow> None
                                    | ch # r3 \<Rightarrow>
                                        if ch = CHR ''}'' then Some ([(k, v)], r3)
                                        else if ch = CHR '','' then
                                          (case parse_members f r3 of
                                             None \<Rightarrow> None
                                           | Some (ms, r4) \<Rightarrow> Some ((k, v) # ms, r4))
                                        else None)))))"

definition json_loads :: "string \<Rightarrow> pyval option" where
  "json_loads s =
     (case parse_value (Suc (length s)) s of
        None \<Rightarrow> None
      | Some (v, r) \<Rightarrow> if skip_ws r = [] then Some v else None)"

text \<open>What a value is after encoding and reading back: an object the encoder does not
  know comes back as the string \<open>str()\<close> gave.\<close>

fun jsonable :: "pyval \<Rightarrow> pyval" where
  "jsonable (PObj s) = PStr s"
| "jsonable (PList xs) = PList (map jsonable xs)"
| "jsonable (PDict ms) = PDict (map (\<lambda>kv. (fst kv, jsonable (snd kv))) ms)"
| "jsonable v = v"

text \<open>The characters a value can start with, and what can follow a value.\<close>

definition starts_value :: "char \<Rightarrow> bool" where
  "starts_value ch = (is_digit ch \<or> ch \<in> {CHR ''-'', CHR 0x22, CHR ''['', CHR ''{'', CHR ''n'', CHR ''t'', CHR ''f''})"

definition value_end :: "string \<Rightarrow> bool" where
  "value_end rest = (rest = [] \<or> hd rest = CHR '','' \<or> hd rest = CHR '']'' \<or> hd rest = CHR ''}'')"

text \<open>An entry of a record's \<open>metadata\<close> column, read back from the JSON text.\<close>

definition metadata_entry :: "string \<Rightarrow> string \<Rightarrow> pyval option" where
  "metadata_entry metadata_json k =
     (case json_loads metadata_json of Some (PDict m) \<Rightarrow> map_of m k | _ \<Rightarrow> None)"

section \<open>The store, documents and storage records\<close>

text \<open>
  The metadata of a \<open>Document\<close> is a dict object, and the record mapper changes it in
  place: documents hold the address of their dict in a store. \<open>metadata = None\<close> is a
  document object with no \<open>metadata\<close> attribute.
\<close>

type_synonym addr = nat

record document =
  page_content :: string
  metadata :: "addr option"

text \<open>The state a run goes through: the store of dict objects with the next free
  address, and how many UUIDs and clock readings were drawn so far.\<close>

record world =
  heap :: "addr \<Rightarrow> dict"
  next_addr :: addr
  uuid_drawn :: nat
  clock_read :: nat

definition alloc :: "dict \<Rightarrow> world \<Rightarrow> addr \<times> world" where
  "alloc d w = (next_addr w, w\<lparr>heap := (heap w)(next_addr w := d), next_addr := Suc (next_addr w)\<rparr>)"

definition setitem :: "addr \<Rightarrow> string \<Rightarrow> pyval \<Rightarrow> world \<Rightarrow> world" where
  "setitem a k v w = w\<lparr>heap := (heap w)(a := AList.update k v (heap w a))\<rparr>"

text \<open>
  The record handed to the table: \<open>Data(text=doc.page_content, data={...})\<close>, whose
  \<open>text\<close> is the \<open>text\<close> entry of its data. \<open>o_source_metadata\<close> is the dict object
  itself (its address), not a copy.
\<close>

record storage_record =
  o_id :: string
  o_text :: string
  o_metadata :: string
  o_embedding :: pyval
  o_created_at :: string
  o_source_metadata :: addr

section \<open>The record mapper\<close>

definition generate_id :: "collab \<Rightarrow> world \<Rightarrow> string \<times> world" where
  "generate_id c w = (uuid4 c (uuid_drawn w), w\<lparr>uuid_drawn := Suc (uuid_drawn w)\<rparr>)"

definition utcnow_isoformat :: "collab \<Rightarrow> world \<Rightarrow> string \<times> world" where
  "utcnow_isoformat c w = (utcnow c (clock_read w), w\<lparr>clock_read := Suc (clock_read w)\<rparr>)"

text \<open>One turn of the loop of \<open>_docs_to_oracle_data\<close>, for the document at position
  \<open>idx\<close>. The default of \<open>metadata.get\<close> is an argument, so a UUID is drawn for it
  whether or not \<open>source_id\<close> is there.\<close>

definition oracle_record :: "collab \<Rightarrow> nat \<Rightarrow> document \<Rightarrow> world \<Rightarrow> storage_record \<times> world" where
  "oracle_record c idx doc w =
     (let (chunk_id, w1) = generate_id c w;
          (a, w2) = (case metadata doc of Some a \<Rightarrow> (a, w1) | None \<Rightarrow> alloc [] w1);
          w3 = setitem a ''chunk_index'' (PInt (int idx)) w2;
          (fresh, w4) = generate_id c w3;
          w5 = setitem a ''source_id'' (dict_get (heap w4 a) ''source_id'' (PStr fresh)) w4;
          metadata_json = json_dumps (heap w5 a);
          (now, w6) = utcnow_isoformat c w5
      in (\<lparr>o_id = chunk_id, o_text = page_content doc, o_metadata = metadata_json,
           o_embedding = PNone, o_created_at = now, o_source_metadata = a\<rparr>, w6))"

text \<open>The loop of \<open>_docs_to_oracle_data\<close> (lines 91 to 116), counting from \<open>idx\<close>.\<close>

fun enumerate_docs :: "collab \<Rightarrow> nat \<Rightarrow> document list \<Rightarrow> world \<Rightarrow> storage_record list \<times> world" where
  "enumerate_docs c idx [] w = ([], w)"
| "enumerate_docs c idx (doc # docs) w =
     (let (r, w1) = oracle_record c idx doc w;
          (rs, w2) = enumerate_docs c (Suc idx) docs w1
      in (r # rs, w2))"

definition docs_to_oracle_data :: "collab \<Rightarrow> document list \<Rightarrow> world \<Rightarrow> storage_record list \<times> world" where
  "docs_to_oracle_data c docs w = enumerate_docs c 0 docs w"

section \<open>Splitting the documents\<close>

text \<open>
  Modelled from the spec: \<open>split_documents\<close> of the splitter library is not under
  \<open>src/\<close>. It produces an ordered sequence of chunks per document, preserving the
  order of the documents and of the chunks within each document: every document's
  text is split by \<open>split_text\<close>, and each chunk becomes a new \<open>Document\<close> that
  inherits its document's metadata, as a deep copy (a dict object of its own).
\<close>

fun create_chunks :: "dict \<Rightarrow> string list \<Rightarrow> world \<Rightarrow> document list \<times> world" where
  "create_chunks m [] w = ([], w)"
| "create_chunks m (chunk # chunks) w =
     (let (a, w1) = alloc m w;
          (ds, w2) = create_chunks m chunks w1
      in (\<lparr>page_content = chunk, metadata = Some a\<rparr> # ds, w2))"

fun split_documents ::
  "collab \<Rightarrow> splitter_args \<Rightarrow> vdocument list \<Rightarrow> world \<Rightarrow> py_exception + document list \<times> world" where
  "split_documents c args [] w = Inr ([], w)"
| "split_documents c args (d # ds) w =
     (case splitter_split_text c args (v_page_content d) of
        Inl e \<Rightarrow> Inl e
      | Inr chunks \<Rightarrow>
          (let (cs, w1) = create_chunks (v_metadata d) chunks w in
           case split_documents c args ds w1 of
             Inl e \<Rightarrow> Inl e
           | Inr (rest, w2) \<Rightarrow> Inr (cs @ rest, w2)))"

text \<open>Lines 127 and 128 of \<open>split_text_base\<close>: the separator the splitter gets.\<close>

definition resolved_separator :: "collab \<Rightarrow> component \<Rightarrow> string" where
  "resolved_separator c self = unescape_string c (fix_separator (separator self))"

text \<open>\<open>str.lower\<close>, on the ASCII letters.\<close>

definition lower :: "string \<Rightarrow> string" where
  "lower s =
     map (\<lambda>ch. if 65 \<le> (of_char ch :: nat) \<and> (of_char ch :: nat) \<le> 90
                then char_of ((of_char ch :: nat) + 32) else ch) s"

text \<open>The arguments the splitter is built with (lines 164 to 177): the strings
  \<open>false\<close> and \<open>true\<close> of \<open>keep_separator\<close>, in any case, become the booleans;
  any other string is passed on as it is.\<close>

definition splitter_args_of :: "component \<Rightarrow> string \<Rightarrow> splitter_args" where
  "splitter_args_of self sep =
     (let keep_sep =
            (case keep_separator self of
               KeepStr s \<Rightarrow>
                 if lower s = ''false'' then KeepBool False
                 else if lower s = ''true'' then KeepBool True
                 else KeepStr s
             | KeepBool b \<Rightarrow> KeepBool b)
      in \<lparr>sp_chunk_overlap = chunk_overlap self, sp_chunk_size = chunk_size self,
          sp_separator = sep, sp_keep_separator = keep_sep\<rparr>)"

text \<open>The \<open>try\<close> block of \<open>split_text_base\<close> (lines 162 to 181): whatever the
  splitter raises, when it is built or when it splits, is raised again as a
  \<open>TypeError\<close>.\<close>

definition split_block ::
  "collab \<Rightarrow> component \<Rightarrow> string \<Rightarrow> vdocument list \<Rightarrow> world \<Rightarrow> py_exception + document list \<times> world" where
  "split_block c self sep documents w =
     (let args = splitter_args_of self sep
      in case splitter_init c args of
           Some e \<Rightarrow> Inl (PyExc TypeError (''Error splitting text: '' @ exc_msg e))
         | None \<Rightarrow>
             (case split_documents c args documents w of
                Inl e \<Rightarrow> Inl (PyExc TypeError (''Error splitting text: '' @ exc_msg e))
              | Inr r \<Rightarrow> Inr r))"

text \<open>The comprehension over a list input: only the \<open>Data\<close> instances are converted,
  in order; the first conversion that raises ends it.\<close>

fun data_documents :: "collab \<Rightarrow> element list \<Rightarrow> py_exception + vdocument list" where
  "data_documents c [] = Inr []"
| "data_documents c (OtherElem # xs) = data_documents c xs"
| "data_documents c (DataElem d # xs) =
     (case to_lc_document c d of
        Inl e \<Rightarrow> Inl e
      | Inr doc \<Rightarrow>
          (case data_documents c xs of
             Inl e \<Rightarrow> Inl e
           | Inr docs \<Rightarrow> Inr (doc # docs)))"

text \<open>\<open>split_text_base\<close> (lines 126 to 181). Setting \<open>text_key\<close> on the input is the
  update of the record handed to the conversion; a \<open>Message\<close> is turned into a list
  of one \<open>Data\<close> and the function runs again.\<close>

function split_text_base ::
  "collab \<Rightarrow> component \<Rightarrow> world \<Rightarrow> py_exception + document list \<times> world" where
  "split_text_base c self w =
     (let sep = resolved_separator c self in
      case data_inputs self of
        DataFrameIn df \<Rightarrow>
          if length (df_rows df) = 0 then Inl (PyExc TypeError ''DataFrame is empty'')
          else (case to_lc_documents c (df\<lparr>df_text_key := text_key self\<rparr>) of
                  Inl e \<Rightarrow>
                    Inl (PyExc TypeError (''Error converting DataFrame to documents: '' @ exc_msg e))
                | Inr documents \<Rightarrow> split_block c self sep documents w)
      | MessageIn m \<Rightarrow> split_text_base c (self\<lparr>data_inputs := ListIn [DataElem m]\<rparr>) w
      | NoneIn \<Rightarrow> Inl (PyExc TypeError ''No data inputs provided'')
      | DataIn d \<Rightarrow>
          (case to_lc_document c (d\<lparr>d_text_key := text_key self\<rparr>) of
             Inl e \<Rightarrow> Inl e
           | Inr doc \<Rightarrow> split_block c self sep [doc] w)
      | ListIn xs \<Rightarrow>
          if xs = [] then Inl (PyExc TypeError ''No data inputs provided'')
          else (case data_documents c xs of
                  Inl e \<Rightarrow>
                    if exc_cls e = AttributeError
                    then Inl (PyExc TypeError (''Invalid input type in collection: '' @ exc_msg e))
                    else Inl e
                | Inr documents \<Rightarrow>
                    if documents = []
                    then Inl (PyExc TypeError
                           (''No valid Data inputs found in <class '' @ [CHR 0x27] @ ''list''
                              @ [CHR 0x27] @ ''>''))
                    else split_block c self sep documents w))"
  by pat_completeness auto
termination
  by (relation "measure (\<lambda>(c, self, w). case data_inputs self of MessageIn m \<Rightarrow> 1 | _ \<Rightarrow> 0)") auto

declare split_text_base.simps [simp del]

text \<open>\<open>split_text\<close>: the rows of the returned \<open>DataFrame\<close>, in order.\<close>

definition split_text ::
  "collab \<Rightarrow> component \<Rightarrow> world \<Rightarrow> py_exception + storage_record list \<times> world" where
  "split_text c self w =
     (case split_text_base c self w of
        Inl e \<Rightarrow> Inl e
      | Inr (split_docs, w1) \<Rightarrow> Inr (docs_to_oracle_data c split_docs w1))"

section \<open>The collaborators, as the libraries have them\<close>

text \<open>
  A concrete choice of the collaborators, to run the pipeline on concrete inputs. None
  of this code is under \<open>src/\<close>; each definition follows what the specification and
  the library it stands for say of it.
\<close>

text \<open>Modelled from the spec: \<open>unescape_string\<close> of lfx is not under \<open>src/\<close>. A
  literal backslash followed by \<open>n\<close> becomes an actual newline; the library replaces
  nothing else.\<close>

fun lfx_unescape_string :: "string \<Rightarrow> string" where
  "lfx_unescape_string [] = []"
| "lfx_unescape_string [x] = [x]"
| "lfx_unescape_string (x # y # ys) =
     (if x = CHR 0x5C \<and> y = CHR ''n'' then CHR 0x0A # lfx_unescape_string ys
      else x # lfx_unescape_string (y # ys))"

text \<open>\<open>str()\<close> of a value. For a list or a dict Python prints the \<open>repr\<close> of the
  items; a string's \<open>repr\<close> is quoted with \<open>'\<close>, or with \<open>"\<close> when it holds a \<open>'\<close>
  and no \<open>"\<close>. An unknown object's \<open>repr\<close> is taken to be its \<open>str\<close>.\<close>

definition repr_char :: "char \<Rightarrow> char \<Rightarrow> string" where
  "repr_char q ch =
     (if ch = q \<or> ch = CHR 0x5C then [CHR 0x5C, ch]
      else if ch = CHR 0x0A then [CHR 0x5C, CHR ''n'']
      else if ch = CHR 0x0D then [CHR 0x5C, CHR ''r'']
      else if ch = CHR 0x09 then [CHR 0x5C, CHR ''t'']
      else if (of_char ch :: nat) < 32 \<or> (of_char ch :: nat) = 127
        then [CHR 0x5C, CHR ''x'',
              hex_digit ((of_char ch :: nat) div 16), hex_digit ((of_char ch :: nat) mod 16)]
      else [ch])"

definition repr_str :: "string \<Rightarrow> string" where
  "repr_str s =
     (let q = (if CHR 0x27 \<in> set s \<and> CHR 0x22 \<notin> set s then CHR 0x22 else CHR 0x27)
      in q # concat (map (repr_char q) s) @ [q])"

fun py_repr :: "pyval \<Rightarrow> string"
  and repr_items :: "pyval list \<Rightarrow> string"
  and repr_members :: "(string \<times> pyval) list \<Rightarrow> string"
where
  "py_repr PNone = ''None''"
| "py_repr (PBool b) = (if b then ''True'' else ''False'')"
| "py_repr (PInt i) = encode_int i"
| "py_repr (PStr s) = repr_str s"
| "py_repr (PObj s) = s"
| "py_repr (PList xs) = ''['' @ repr_items xs @ '']''"
| "py_repr (PDict ms) = ''{'' @ repr_members ms @ ''}''"
| "repr_items [] = []"
| "repr_items [x] = py_repr x"
| "repr_items (x # y # ys) = py_repr x @ '', '' @ repr_items (y # ys)"
| "repr_members [] = []"
| "repr_members [(k, v)] = repr_str k @ '': '' @ py_repr v"
| "repr_members ((k, v) # m # ms) =
     repr_str k @ '': '' @ py_repr v @ '', '' @ repr_members (m # ms)"

definition py_str :: "pyval \<Rightarrow> string" where
  "py_str v = (case v of PStr s \<Rightarrow> s | _ \<Rightarrow> py_repr v)"

text \<open>Modelled from the spec: \<open>Data.to_lc_document\<close> and
  \<open>DataFrame.to_lc_documents\<close> of lfx are not under \<open>src/\<close>. A record or a row is
  converted to a document using the configured text key: the text is popped from a copy of the dict under the text key (the default text when the key is
  missing, \<open>str()\<close> of the value when it is not a string); what is left is the
  metadata. Neither raises.\<close>

definition pop_text :: "dict \<Rightarrow> string \<Rightarrow> string \<Rightarrow> vdocument" where
  "pop_text d key dflt =
     \<lparr>v_page_content = (case map_of d key of None \<Rightarrow> dflt | Some v \<Rightarrow> py_str v),
      v_metadata = AList.delete key d\<rparr>"

definition lfx_to_lc_document :: "data \<Rightarrow> py_exception + vdocument" where
  "lfx_to_lc_document d = Inr (pop_text (d_data d) (d_text_key d) (d_default_value d))"

definition lfx_to_lc_documents :: "dataframe \<Rightarrow> py_exception + vdocument list" where
  "lfx_to_lc_documents df =
     Inr (map (\<lambda>row. pop_text row (df_text_key df) (df_default_value df)) (df_rows df))"

text \<open>
  Modelled from the spec: the character splitter (\<open>CharacterTextSplitter\<close> of the
  splitter library) is not under \<open>src/\<close>. The text is first broken on the separator
  (on every character when the separator is empty), the separator is dropped, or kept
  at the start or the end of the pieces; empty pieces are left out; the pieces are then
  merged greedily, joined by the separator, up to \<open>chunk_size\<close>, each chunk stripped
  of surrounding whitespace; a piece longer than \<open>chunk_size\<close> is a chunk of its own.
  After a chunk is emitted, pieces are popped from its front until at most
  \<open>chunk_overlap\<close> characters are carried over and the next piece fits.
  Lengths are counted in bytes, which is the number of characters for ASCII text.
\<close>

function split_on :: "string \<Rightarrow> string \<Rightarrow> string \<Rightarrow> string list" where
  "split_on sep cur [] = [cur]"
| "split_on sep cur (x # xs) =
     (if sep \<noteq> [] \<and> take (length sep) (x # xs) = sep
      then cur # split_on sep [] (drop (length sep) (x # xs))
      else split_on sep (cur @ [x]) xs)"
  by pat_completeness auto
termination
  by (relation "measure (\<lambda>(sep, cur, text). length text)") auto

definition keep_truthy :: "keep_sep \<Rightarrow> bool" where
  "keep_truthy k = (case k of KeepBool b \<Rightarrow> b | KeepStr s \<Rightarrow> s \<noteq> [])"

definition split_text_with_regex :: "string \<Rightarrow> string \<Rightarrow> keep_sep \<Rightarrow> string list" where
  "split_text_with_regex text sep keep =
     (let pieces = split_on sep [] text;
          splits =
            (if sep = [] then map (\<lambda>ch. [ch]) text
             else if keep_truthy keep then
               (if keep = KeepStr ''end''
                then map (\<lambda>p. p @ sep) (butlast pieces) @ [last pieces]
                else hd pieces # map (\<lambda>p. sep @ p) (tl pieces))
             else pieces)
      in filter (\<lambda>p. p \<noteq> []) splits)"

definition is_space :: "char \<Rightarrow> bool" where
  "is_space ch =
     ((9 \<le> (of_char ch :: nat) \<and> (of_char ch :: nat) \<le> 13)
      \<or> (28 \<le> (of_char ch :: nat) \<and> (of_char ch :: nat) \<le> 32))"

definition strip :: "string \<Rightarrow> string" where
  "strip s = rev (dropWhile is_space (rev (dropWhile is_space s)))"

fun join :: "string \<Rightarrow> string list \<Rightarrow> string" where
  "join sep [] = []"
| "join sep [x] = x"
| "join sep (x # y # ys) = x @ sep @ join sep (y # ys)"

definition join_docs :: "string \<Rightarrow> string list \<Rightarrow> string option" where
  "join_docs sep docs = (let text = strip (join sep docs) in if text = [] then None else Some text)"

text \<open>The inner loop of the merge: \<open>cur[0]\<close> on an empty list raises.\<close>

fun pop_front :: "splitter_args \<Rightarrow> int \<Rightarrow> int \<Rightarrow> string list \<Rightarrow> int \<Rightarrow> py_exception + string list \<times> int" where
  "pop_front args sep_len len [] tot =
     (if tot > sp_chunk_overlap args \<or> (tot + len > sp_chunk_size args \<and> tot > 0)
      then Inl (PyExc OtherException ''list index out of range'')
      else Inr ([], tot))"
| "pop_front args sep_len len (x # cur) tot =
     (if tot > sp_chunk_overlap args \<or> (tot + len + sep_len > sp_chunk_size args \<and> tot > 0)
      then pop_front args sep_len len cur
             (tot - (int (length x) + (if cur \<noteq> [] then sep_len else 0)))
      else Inr (x # cur, tot))"

text \<open>One turn of the merge loop, on the piece \<open>d\<close>: the chunks emitted so far, the
  pieces of the current chunk and their total length.\<close>

definition merge_step ::
  "splitter_args \<Rightarrow> string \<Rightarrow> string \<Rightarrow> string list \<times> string list \<times> int
     \<Rightarrow> py_exception + string list \<times> string list \<times> int" where
  "merge_step args sep d st =
     (case st of (docs, cur, tot) \<Rightarrow>
        let sep_len = int (length sep); len = int (length d) in
        if tot + len + (if cur \<noteq> [] then sep_len else 0) > sp_chunk_size args \<and> cur \<noteq> []
        then (case pop_front args sep_len len cur tot of
                Inl e \<Rightarrow> Inl e
              | Inr (cur', tot') \<Rightarrow>
                  Inr (docs @ (case join_docs sep cur of None \<Rightarrow> [] | Some doc \<Rightarrow> [doc]),
                       cur' @ [d], tot' + len + (if cur' \<noteq> [] then sep_len else 0)))
        else Inr (docs, cur @ [d], tot + len + (if cur \<noteq> [] then sep_len else 0)))"

fun merge_loop ::
  "splitter_args \<Rightarrow> string \<Rightarrow> string list \<Rightarrow> string list \<times> string list \<times> int
     \<Rightarrow> py_exception + string list \<times> string list \<times> int" where
  "merge_loop args sep [] st = Inr st"
| "merge_loop args sep (d # splits) st =
     (case merge_step args sep d st of
        Inl e \<Rightarrow> Inl e
      | Inr st' \<Rightarrow> merge_loop args sep splits st')"

definition merge_splits :: "splitter_args \<Rightarrow> string \<Rightarrow> string list \<Rightarrow> py_exception + string list" where
  "merge_splits args sep splits =
     (case merge_loop args sep splits ([], [], 0) of
        Inl e \<Rightarrow> Inl e
      | Inr (docs, cur, tot) \<Rightarrow>
          Inr (docs @ (case join_docs sep cur of None \<Rightarrow> [] | Some doc \<Rightarrow> [doc])))"

definition character_split_text :: "splitter_args \<Rightarrow> string \<Rightarrow> py_exception + string list" where
  "character_split_text args text =
     merge_splits args
       (if keep_truthy (sp_keep_separator args) then [] else sp_separator args)
       (split_text_with_regex text (sp_separator args) (sp_keep_separator args))"

text \<open>The constructor refuses a chunk size that is not positive, a negative overlap
  and an overlap larger than the chunk size.\<close>

definition character_splitter_init :: "splitter_args \<Rightarrow> py_exception option" where
  "character_splitter_init args =
     (if sp_chunk_size args \<le> 0
      then Some (PyExc ValueError (''chunk_size must be > 0, got '' @ encode_int (sp_chunk_size args)))
      else if sp_chunk_overlap args < 0
      then Some (PyExc ValueError
             (''chunk_overlap must be >= 0, got '' @ encode_int (sp_chunk_overlap args)))
      else if sp_chunk_overlap args > sp_chunk_size args
      then Some (PyExc ValueError
             (''Got a larger chunk overlap ('' @ encode_int (sp_chunk_overlap args)
                @ '') than chunk size ('' @ encode_int (sp_chunk_size args)
                @ ''), should be smaller.''))
      else None)"

text \<open>The \<open>n\<close>-th UUID and the \<open>n\<close>-th clock reading of the concrete runs: version 4
  UUIDs that differ in their first group, and a fixed instant.\<close>

definition hex8 :: "nat \<Rightarrow> string" where
  "hex8 n = map (\<lambda>i. hex_digit (n div 16 ^ i mod 16)) [7, 6, 5, 4, 3, 2, 1, 0]"

definition counter_uuid4 :: "nat \<Rightarrow> string" where
  "counter_uuid4 n = hex8 n @ ''-0000-4000-8000-000000000000''"

definition fixed_utcnow :: "nat \<Rightarrow> string" where
  "fixed_utcnow n = ''2024-01-01T00:00:00''"

definition libraries :: collab where
  "libraries =
     \<lparr>unescape_string = lfx_unescape_string,
      to_lc_document = lfx_to_lc_document,
      to_lc_documents = lfx_to_lc_documents,
      splitter_init = character_splitter_init,
      splitter_split_text = character_split_text,
      uuid4 = counter_uuid4,
      utcnow = fixed_utcnow\<rparr>"

definition world0 :: world where
  "world0 = \<lparr>heap = (\<lambda>a. []), next_addr = 0, uuid_drawn = 0, clock_read = 0\<rparr>"

section \<open>Notions the properties are stated with\<close>

text \<open>
  The documents the input is normalised to: the part of \<open>split_text_base\<close> before
  the \<open>try\<close> block, with the \<open>Message\<close> case unfolded (\<open>split_text_base_documents\<close>
  below shows that \<open>split_text_base\<close> is this followed by the \<open>try\<close> block).
\<close>

definition input_documents :: "collab \<Rightarrow> component \<Rightarrow> py_exception + vdocument list" where
  "input_documents c self =
     (case data_inputs self of
        DataFrameIn df \<Rightarrow>
          if df_rows df = [] then Inl (PyExc TypeError ''DataFrame is empty'')
          else (case to_lc_documents c (df\<lparr>df_text_key := text_key self\<rparr>) of
                  Inl e \<Rightarrow>
                    Inl (PyExc TypeError (''Error converting DataFrame to documents: '' @ exc_msg e))
                | Inr documents \<Rightarrow> Inr documents)
      | MessageIn m \<Rightarrow>
          (case to_lc_document c m of
             Inl e \<Rightarrow>
               if exc_cls e = AttributeError
               then Inl (PyExc TypeError (''Invalid input type in collection: '' @ exc_msg e))
               else Inl e
           | Inr doc \<Rightarrow> Inr [doc])
      | NoneIn \<Rightarrow> Inl (PyExc TypeError ''No data inputs provided'')
      | DataIn d \<Rightarrow>
          (case to_lc_document c (d\<lparr>d_text_key := text_key self\<rparr>) of
             Inl e \<Rightarrow> Inl e
           | Inr doc \<Rightarrow> Inr [doc])
      | ListIn xs \<Rightarrow>
          if xs = [] then Inl (PyExc TypeError ''No data inputs provided'')
          else (case data_documents c xs of
                  Inl e \<Rightarrow>
                    if exc_cls e = AttributeError
                    then Inl (PyExc TypeError (''Invalid input type in collection: '' @ exc_msg e))
                    else Inl e
                | Inr documents \<Rightarrow>
                    if documents = []
                    then Inl (PyExc TypeError
                           (''No valid Data inputs found in <class '' @ [CHR 0x27] @ ''list''
                              @ [CHR 0x27] @ ''>''))
                    else Inr documents))"

text \<open>The arguments the component builds its splitter with, and the chunks the
  splitter makes of one document (none when it raises).\<close>

definition component_args :: "collab \<Rightarrow> component \<Rightarrow> splitter_args" where
  "component_args c self = splitter_args_of self (resolved_separator c self)"

definition chunks_of :: "collab \<Rightarrow> splitter_args \<Rightarrow> vdocument \<Rightarrow> string list" where
  "chunks_of c args d =
     (case splitter_split_text c args (v_page_content d) of Inl e \<Rightarrow> [] | Inr chunks \<Rightarrow> chunks)"

text \<open>The metadata each chunk starts from, in the order of the chunks: its document's
  metadata, once per chunk of the document.\<close>

definition chunk_metadatas :: "collab \<Rightarrow> splitter_args \<Rightarrow> vdocument list \<Rightarrow> dict list" where
  "chunk_metadatas c args ds =
     concat (map (\<lambda>d. replicate (length (chunks_of c args d)) (v_metadata d)) ds)"

text \<open>What lines 98 and 99 of \<open>_docs_to_oracle_data\<close> leave in a dict \<open>m\<close>, for the
  position \<open>idx\<close> and the UUID \<open>fresh\<close> drawn for the default.\<close>

definition stamped :: "nat \<Rightarrow> string \<Rightarrow> dict \<Rightarrow> dict" where
  "stamped idx fresh m =
     (let m1 = AList.update ''chunk_index'' (PInt (int idx)) m
      in AList.update ''source_id'' (dict_get m1 ''source_id'' (PStr fresh)) m1)"

text \<open>The \<open>chunk_index\<close> and the \<open>source_id\<close> a record carries in its \<open>metadata\<close>
  column, read back from the JSON text.\<close>

definition chunk_index_of :: "storage_record \<Rightarrow> pyval option" where
  "chunk_index_of r = metadata_entry (o_metadata r) ''chunk_index''"

definition source_id_of :: "storage_record \<Rightarrow> pyval option" where
  "source_id_of r = metadata_entry (o_metadata r) ''source_id''"

text \<open>The records of the \<open>j\<close>-th document are those from position \<open>group_offset\<close>
  on, \<open>group_size\<close> of them: the chunks of the documents before it come first.\<close>

definition group_offset :: "collab \<Rightarrow> splitter_args \<Rightarrow> vdocument list \<Rightarrow> nat \<Rightarrow> nat" where
  "group_offset c args ds j = length (chunk_metadatas c args (take j ds))"

definition group_size :: "collab \<Rightarrow> splitter_args \<Rightarrow> vdocument list \<Rightarrow> nat \<Rightarrow> nat" where
  "group_size c args ds j = length (chunks_of c args (ds ! j))"


text \<open>\<open>isinstance(input_, Data)\<close> on an element of a list input.\<close>

fun is_data :: "element \<Rightarrow> bool" where
  "is_data (DataElem d) = True"
| "is_data OtherElem = False"

text \<open>A UUID in the text form of version 4: five groups of lowercase hexadecimal
  digits, 8-4-4-4-12, the third starting with \<open>4\<close>, the fourth with \<open>8\<close>, \<open>9\<close>,
  \<open>a\<close> or \<open>b\<close>.\<close>

definition is_hex :: "char \<Rightarrow> bool" where
  "is_hex ch = (is_digit ch \<or> (97 \<le> (of_char ch :: nat) \<and> (of_char ch :: nat) \<le> 102))"

definition is_uuid4 :: "string \<Rightarrow> bool" where
  "is_uuid4 s =
     (length s = 36
      \<and> list_all is_hex (take 8 s) \<and> s ! 8 = CHR ''-''
      \<and> list_all is_hex (take 4 (drop 9 s)) \<and> s ! 13 = CHR ''-''
      \<and> s ! 14 = CHR ''4'' \<and> list_all is_hex (take 3 (drop 15 s)) \<and> s ! 18 = CHR ''-''
      \<and> s ! 19 \<in> set ''89ab'' \<and> list_all is_hex (take 3 (drop 20 s)) \<and> s ! 23 = CHR ''-''
      \<and> list_all is_hex (drop 24 s))"

section \<open>Concrete inputs\<close>

text \<open>A component with the defaults of its inputs, a \<open>Data\<close> holding one text, and
  a component that splits on \<open>.\<close> into chunks of one character.\<close>

definition default_component :: "data_inputs \<Rightarrow> component" where
  "default_component x =
     \<lparr>data_inputs = x, chunk_overlap = 200, chunk_size = 1000, separator = [CHR 0x0A],
      text_key = ''text'', keep_separator = KeepStr ''False''\<rparr>"

definition text_data :: "string \<Rightarrow> data" where
  "text_data s = \<lparr>d_data = [(''text'', PStr s)], d_text_key = ''text'', d_default_value = []\<rparr>"

definition dot_component :: "data_inputs \<Rightarrow> component" where
  "dot_component x =
     \<lparr>data_inputs = x, chunk_overlap = 0, chunk_size = 1, separator = ''.'',
      text_key = ''text'', keep_separator = KeepStr ''False''\<rparr>"

definition numbered_data :: data where
  "numbered_data =
     \<lparr>d_data = [(''text'', PStr ''A''), (''source_id'', PInt 7)], d_text_key = ''text'',
      d_default_value = []\<rparr>"

text \<open>Two chunk documents, each with a dict object of its own.\<close>

definition two_chunks :: "document list" where
  "two_chunks = [\<lparr>page_content = ''A'', metadata = Some 0\<rparr>, \<lparr>page_content = ''B'', metadata = Some 1\<rparr>]"

definition empty_dataframe :: dataframe where
  "empty_dataframe = \<lparr>df_rows = [], df_text_key = ''text'', df_default_value = []\<rparr>"

section \<open>Separator resolution: properties\<close>







section \<open>The JSON text is read back as it was written\<close>

lemma digits_of_nonempty: "digits_of n \<noteq> []"
  by (subst digits_of.simps) simp

lemma is_digit_char_of: "k < 10 \<Longrightarrow> is_digit (char_of (48 + (k::nat)))"
  by (simp add: is_digit_def)

lemma char_of_eq_zero: "k < 10 \<Longrightarrow> (char_of (48 + (k::nat)) = CHR ''0'') = (k = 0)"
proof -
  assume k: "k < 10"
  have "(char_of (48 + k) = CHR ''0'') = ((of_char (char_of (48 + k)) :: nat) = of_char (CHR ''0''))"
    by (simp only: of_char_eq_iff)
  also have "\<dots> = (k = 0)" using k by simp
  finally show ?thesis .
qed

lemma digits_of_digits: "c \<in> set (digits_of n) \<Longrightarrow> is_digit c"
proof (induction n arbitrary: c rule: digits_of.induct)
  case (1 n)
  show ?case
  proof (cases "n < 10")
    case True
    with "1.prems" show ?thesis
      by (subst (asm) digits_of.simps) (auto simp: is_digit_char_of)
  next
    case False
    with "1.prems" "1.IH" show ?thesis
      by (subst (asm) digits_of.simps) (auto simp: is_digit_char_of)
  qed
qed

lemma digits_val_snoc: "digits_val (ds @ [d]) = 10 * digits_val ds + ((of_char d :: nat) - 48)"
  by (simp add: digits_val_def)

lemma digits_val_digits_of: "digits_val (digits_of n) = n"
proof (induction n rule: digits_of.induct)
  case (1 n)
  show ?case
  proof (cases "n < 10")
    case True
    then show ?thesis
      by (subst digits_of.simps) (simp add: digits_val_def)
  next
    case False
    with "1.IH" show ?thesis
      by (subst digits_of.simps) (simp add: digits_val_snoc)
  qed
qed

lemma hd_digits_of: "0 < n \<Longrightarrow> hd (digits_of n) \<noteq> CHR ''0''"
proof (induction n rule: digits_of.induct)
  case (1 n)
  show ?case
  proof (cases "n < 10")
    case True
    with "1.prems" show ?thesis
      by (subst digits_of.simps) (simp add: char_of_eq_zero)
  next
    case False
    then have "0 < n div 10" by simp
    with "1.IH" False have "hd (digits_of (n div 10)) \<noteq> CHR ''0''" by simp
    with False show ?thesis
      by (subst digits_of.simps) (simp add: digits_of_nonempty)
  qed
qed

lemma length_digits_of_small: "n < 10 \<Longrightarrow> length (digits_of n) = 1"
  by (subst digits_of.simps) simp


lemma takeWhile_digits:
  assumes "rest = [] \<or> \<not> is_digit (hd rest)"
  shows "takeWhile is_digit (digits_of n @ rest) = digits_of n"
    and "dropWhile is_digit (digits_of n @ rest) = rest"
  using assms by (cases rest; simp add: takeWhile_append2 dropWhile_append2 digits_of_digits)+

lemma digits_of_leading:
  "\<not> (1 < length (digits_of n) \<and> hd (digits_of n) = CHR ''0'')"
proof (cases "n = 0")
  case True
  then show ?thesis by (simp add: length_digits_of_small)
next
  case False
  then show ?thesis using hd_digits_of [of n] by simp
qed

lemma hd_digits_of_not_minus: "hd (digits_of n) \<noteq> CHR ''-''"
proof -
  have "is_digit (hd (digits_of n))"
    using digits_of_digits [of "hd (digits_of n)" n] digits_of_nonempty [of n] by simp
  then show ?thesis by (auto simp: is_digit_def)
qed

lemma parse_int_digits:
  assumes "rest = [] \<or> (\<not> is_digit (hd rest) \<and> hd rest \<notin> {CHR ''.'', CHR ''e'', CHR ''E''})"
  shows "parse_int (digits_of n @ rest) = Some (PInt (int n), rest)"
proof -
  have f: "rest = [] \<or> \<not> is_digit (hd rest)" using assms by auto
  have h: "hd (digits_of n @ rest) \<noteq> CHR ''-''"
    using hd_digits_of_not_minus [of n] digits_of_nonempty [of n] by simp
  show ?thesis
    using assms h digits_of_leading [of n]
    by (auto simp: parse_int_def Let_def takeWhile_digits [OF f] digits_of_nonempty
        digits_val_digits_of)
qed

lemma parse_int_encode_int:
  assumes "rest = [] \<or> (\<not> is_digit (hd rest) \<and> hd rest \<notin> {CHR ''.'', CHR ''e'', CHR ''E''})"
  shows "parse_int (encode_int i @ rest) = Some (PInt i, rest)"
proof (cases "i < 0")
  case False
  then show ?thesis using parse_int_digits [OF assms, of "nat i"] by (simp add: encode_int_def)
next
  case True
  have f: "rest = [] \<or> \<not> is_digit (hd rest)" using assms by auto
  show ?thesis
    using assms True digits_of_leading [of "nat (- i)"]
    by (auto simp: encode_int_def parse_int_def Let_def takeWhile_digits [OF f] digits_of_nonempty
        digits_val_digits_of)
qed

lemma hex_val_hex_digit: "k < 16 \<Longrightarrow> hex_val (hex_digit k) = Some k"
  by (auto simp: hex_val_def hex_digit_def Let_def)

lemma parse_chars_escape_char:
  "parse_chars (escape_char ch @ cs) =
     (case parse_chars cs of None \<Rightarrow> None | Some (s, r) \<Rightarrow> Some (ch # s, r))"
proof -
  consider "ch = CHR 0x22" | "ch = CHR 0x5C" | "ch = CHR 0x0A" | "ch = CHR 0x0D" | "ch = CHR 0x09"
    | "ch = CHR 0x08" | "ch = CHR 0x0C"
    | "ch \<notin> {CHR 0x22, CHR 0x5C, CHR 0x0A, CHR 0x0D, CHR 0x09, CHR 0x08, CHR 0x0C}" "(of_char ch :: nat) < 32"
    | "ch \<notin> {CHR 0x22, CHR 0x5C, CHR 0x0A, CHR 0x0D, CHR 0x09, CHR 0x08, CHR 0x0C}" "\<not> (of_char ch :: nat) < 32"
    by blast
  then show ?thesis
  proof cases
    case 8
    then have lt: "(of_char ch :: nat) div 16 < 16" "(of_char ch :: nat) mod 16 < 16" by auto
    have "utf8 (of_char ch) = Some [ch]" using 8 by (simp add: utf8_def)
    moreover have "(of_char ch :: nat) div 16 * 16 + of_char ch mod 16 = of_char ch" by simp
    ultimately have "unicode_escape [CHR ''0'', CHR ''0'', hex_digit ((of_char ch :: nat) div 16),
        hex_digit ((of_char ch :: nat) mod 16)] = Some [ch]"
      by (simp add: unicode_escape_def hex_val_hex_digit [OF lt(1)] hex_val_hex_digit [OF lt(2)])
         (simp add: hex_val_def)
    with 8 show ?thesis
      by (simp add: escape_char_def parse_chars.simps split: option.splits)
  next
    case 9
    then show ?thesis
      by (simp add: escape_char_def parse_chars.simps split: option.splits)
  qed (simp_all add: escape_char_def parse_chars.simps simple_escape_def split: option.splits)
qed

lemma parse_chars_escaped:
  "parse_chars (concat (map escape_char s) @ CHR 0x22 # rest) = Some (s, rest)"
proof (induction s)
  case Nil
  show ?case by (simp add: parse_chars.simps)
next
  case (Cons ch s)
  show ?case
    using Cons.IH parse_chars_escape_char [of ch "concat (map escape_char s) @ CHR 0x22 # rest"]
    by simp
qed

lemma parse_chars_encode_string:
  "\<exists>cs. encode_string s @ rest = CHR 0x22 # cs \<and> parse_chars cs = Some (s, rest)"
  using parse_chars_escaped [of s rest] by (simp add: encode_string_def)

lemma value_end_simps [simp]:
  "value_end []" "value_end (CHR '','' # s)" "value_end (CHR '']'' # s)" "value_end (CHR ''}'' # s)"
  by (simp_all add: value_end_def)

lemma value_end_int:
  "value_end rest \<Longrightarrow>
   rest = [] \<or> (\<not> is_digit (hd rest) \<and> hd rest \<notin> {CHR ''.'', CHR ''e'', CHR ''E''})"
  by (auto simp: value_end_def is_digit_def)

lemma skip_ws_Cons: "\<not> is_ws ch \<Longrightarrow> skip_ws (ch # cs) = ch # cs"
  by (simp add: skip_ws_def)

lemma skip_ws_space: "skip_ws (CHR '' '' # s) = skip_ws s"
  by (simp add: skip_ws_def is_ws_def)

lemma encode_int_head:
  "\<exists>ch cs. encode_int i = ch # cs \<and> (is_digit ch \<or> ch = CHR ''-'')"
proof (cases "i < 0")
  case True
  then show ?thesis by (simp add: encode_int_def)
next
  case False
  obtain ch cs where e: "digits_of (nat i) = ch # cs"
    using digits_of_nonempty [of "nat i"] by (cases "digits_of (nat i)") auto
  then have "is_digit ch" using digits_of_digits [of ch "nat i"] by simp
  with e False show ?thesis by (simp add: encode_int_def)
qed

lemma starts_value_not:
  "starts_value ch \<Longrightarrow> \<not> is_ws ch \<and> ch \<noteq> CHR '']'' \<and> ch \<noteq> CHR ''}''"
  by (auto simp: starts_value_def is_ws_def is_digit_def)

lemma json_encode_head: "\<exists>ch cs. json_encode v = ch # cs \<and> starts_value ch"
proof (cases v)
  case (PInt i)
  then show ?thesis using encode_int_head [of i] by (auto simp: starts_value_def)
qed (auto simp: starts_value_def encode_string_def)

lemma skip_ws_json_encode: "skip_ws (json_encode v @ rest) = json_encode v @ rest"
  using json_encode_head [of v] by (auto simp: skip_ws_Cons starts_value_not)

lemma skip_ws_space_json_encode: "skip_ws (CHR '' '' # json_encode v @ rest) = json_encode v @ rest"
  by (simp add: skip_ws_space skip_ws_json_encode)

lemma parse_value_scalar:
  assumes "skip_ws s = ch # cs" "starts_value ch"
  shows "parse_value (Suc f) s =
     (if ch = CHR 0x22 then
        (case parse_chars cs of None \<Rightarrow> None | Some (x, r) \<Rightarrow> Some (PStr x, r))
      else if ch = CHR ''['' then
        (if take 1 (skip_ws cs) = '']'' then Some (PList [], drop 1 (skip_ws cs))
         else (case parse_items f cs of None \<Rightarrow> None | Some (xs, r) \<Rightarrow> Some (PList xs, r)))
      else if ch = CHR ''{'' then
        (if take 1 (skip_ws cs) = ''}'' then Some (PDict [], drop 1 (skip_ws cs))
         else (case parse_members f cs of None \<Rightarrow> None | Some (ms, r) \<Rightarrow> Some (PDict ms, r)))
      else if take 4 (ch # cs) = ''null'' then Some (PNone, drop 4 (ch # cs))
      else if take 4 (ch # cs) = ''true'' then Some (PBool True, drop 4 (ch # cs))
      else if take 5 (ch # cs) = ''false'' then Some (PBool False, drop 5 (ch # cs))
      else parse_int (ch # cs))"
  using assms by simp


lemma encode_items_head:
  "xs \<noteq> [] \<Longrightarrow> \<exists>ch cs. encode_items xs = ch # cs \<and> starts_value ch"
proof (cases xs)
  case (Cons x ys)
  then show ?thesis using json_encode_head [of x] by (cases ys) auto
qed simp

lemma encode_members_head:
  "ms \<noteq> [] \<Longrightarrow> \<exists>cs. encode_members ms = CHR 0x22 # cs"
proof (cases ms)
  case (Cons m ys)
  then show ?thesis by (cases m; cases ys) (auto simp: encode_string_def)
qed simp

lemma parse_roundtrip:
  "\<And>f s rest. length (json_encode v) \<le> f \<Longrightarrow> skip_ws s = json_encode v @ rest \<Longrightarrow>
       value_end rest \<Longrightarrow> parse_value f s = Some (jsonable v, rest)"
  "\<And>f s rest. xs \<noteq> [] \<Longrightarrow> length (encode_items xs) < f \<Longrightarrow>
       skip_ws s = encode_items xs @ CHR '']'' # rest \<Longrightarrow>
       parse_items f s = Some (map jsonable xs, rest)"
  "\<And>f s rest. ms \<noteq> [] \<Longrightarrow> length (encode_members ms) < f \<Longrightarrow>
       skip_ws s = encode_members ms @ CHR ''}'' # rest \<Longrightarrow>
       parse_members f s = Some (map (\<lambda>kv. (fst kv, jsonable (snd kv))) ms, rest)"
proof (induction v and xs and ms rule: json_encode_encode_items_encode_members.induct)
  case 1
  then obtain f' where f: "f = Suc f'" by (cases f) auto
  from 1 show ?case unfolding f by (simp add: starts_value_def parse_value_scalar)
next
  case (2 b)
  then obtain f' where f: "f = Suc f'" by (cases f) (auto split: if_splits)
  from 2 show ?case unfolding f by (simp add: starts_value_def parse_value_scalar)
next
  case (3 i)
  obtain ch cs where e: "encode_int i = ch # cs" "is_digit ch \<or> ch = CHR ''-''"
    using encode_int_head [of i] by auto
  from 3 e obtain f' where f: "f = Suc f'" by (cases f) auto
  have sk: "skip_ws s = ch # (cs @ rest)" using 3 e by simp
  have sv: "starts_value ch" using e by (auto simp: starts_value_def)
  have nq: "ch \<notin> {CHR 0x22, CHR ''['', CHR ''{'', CHR ''n'', CHR ''t'', CHR ''f''}"
    using e by (auto simp: is_digit_def)
  have "parse_value f s = parse_int (ch # (cs @ rest))"
    unfolding f parse_value_scalar [OF sk sv] using nq by simp
  also have "\<dots> = parse_int (encode_int i @ rest)" using e by simp
  also have "\<dots> = Some (PInt i, rest)"
    using parse_int_encode_int [OF value_end_int [OF 3(3)]] .
  finally show ?case by simp
next
  case (4 x)
  obtain cs where c: "encode_string x @ rest = CHR 0x22 # cs" "parse_chars cs = Some (x, rest)"
    using parse_chars_encode_string [of x rest] by auto
  from 4 obtain f' where f: "f = Suc f'" by (cases f) (auto simp: encode_string_def)
  from 4 c show ?case unfolding f by (simp add: starts_value_def parse_value_scalar)
next
  case (5 x)
  obtain cs where c: "encode_string x @ rest = CHR 0x22 # cs" "parse_chars cs = Some (x, rest)"
    using parse_chars_encode_string [of x rest] by auto
  from 5 obtain f' where f: "f = Suc f'" by (cases f) (auto simp: encode_string_def)
  from 5 c show ?case unfolding f by (simp add: starts_value_def parse_value_scalar)
next
  case (6 xs)
  from 6(2) obtain f' where f: "f = Suc f'" by (cases f) auto
  have sk: "skip_ws s = CHR ''['' # (encode_items xs @ CHR '']'' # rest)" using 6(3) by simp
  have sv: "starts_value (CHR ''['')" by (simp add: starts_value_def)
  show ?case
  proof (cases "xs = []")
    case True
    then show ?thesis unfolding f parse_value_scalar [OF sk sv]
      by (simp add: skip_ws_Cons is_ws_def)
  next
    case False
    obtain ch cs where h: "encode_items xs = ch # cs" "starts_value ch"
      using encode_items_head [OF False] by auto
    have s2: "skip_ws (encode_items xs @ CHR '']'' # rest) = encode_items xs @ CHR '']'' # rest"
      using h by (simp add: skip_ws_Cons starts_value_not)
    have ne: "take 1 (skip_ws (encode_items xs @ CHR '']'' # rest)) \<noteq> '']''"
      unfolding s2 using h starts_value_not [of ch] by simp
    have "length (encode_items xs) < f'" using 6(2) f by simp
    from "6.IH" [OF False this s2]
    show ?thesis unfolding f parse_value_scalar [OF sk sv] using ne by simp
  qed
next
  case (7 ms)
  from 7(2) obtain f' where f: "f = Suc f'" by (cases f) auto
  have sk: "skip_ws s = CHR ''{'' # (encode_members ms @ CHR ''}'' # rest)" using 7(3) by simp
  have sv: "starts_value (CHR ''{'')" by (simp add: starts_value_def)
  show ?case
  proof (cases "ms = []")
    case True
    then show ?thesis unfolding f parse_value_scalar [OF sk sv]
      by (simp add: skip_ws_Cons is_ws_def)
  next
    case False
    obtain cs where h: "encode_members ms = CHR 0x22 # cs"
      using encode_members_head [OF False] by auto
    have s2: "skip_ws (encode_members ms @ CHR ''}'' # rest) = encode_members ms @ CHR ''}'' # rest"
      using h by (simp add: skip_ws_Cons is_ws_def)
    have ne: "take 1 (skip_ws (encode_members ms @ CHR ''}'' # rest)) \<noteq> ''}''"
      unfolding s2 using h by simp
    have "length (encode_members ms) < f'" using 7(2) f by simp
    from "7.IH" [OF False this s2]
    show ?thesis unfolding f parse_value_scalar [OF sk sv] using ne by simp
  qed
next
  case 8
  then show ?case by simp
next
  case (9 x)
  from 9(3) obtain f' where f: "f = Suc f'" by (cases f) auto
  have "length (json_encode x) \<le> f'" using 9(3) f by simp
  from "9.IH" [OF this, of s "CHR '']'' # rest"] 9(4)
  have "parse_value f' s = Some (jsonable x, CHR '']'' # rest)" by simp
  then show ?case unfolding f by (simp add: skip_ws_Cons is_ws_def)
next
  case (10 x y ys)
  from 10(4) obtain f' where f: "f = Suc f'" by (cases f) auto
  let ?tail = "encode_items (y # ys) @ CHR '']'' # rest"
  have "length (json_encode x) \<le> f'" using 10(4) f by simp
  from "10.IH"(1) [OF this, of s "CHR '','' # CHR '' '' # ?tail"] 10(5)
  have pv: "parse_value f' s = Some (jsonable x, CHR '','' # CHR '' '' # ?tail)" by simp
  obtain ch cs where h: "encode_items (y # ys) = ch # cs" "starts_value ch"
    using encode_items_head [of "y # ys"] by auto
  have s2: "skip_ws (CHR '' '' # ?tail) = ?tail"
    using h by (simp add: skip_ws_space skip_ws_Cons starts_value_not)
  have "length (encode_items (y # ys)) < f'" using 10(4) f by simp
  from "10.IH"(2) [OF _ this s2]
  have pi: "parse_items f' (CHR '' '' # ?tail) = Some (map jsonable (y # ys), rest)" by simp
  show ?case unfolding f using pv pi by (simp add: skip_ws_Cons is_ws_def)
next
  case 11
  then show ?case by simp
next
  case (12 k v)
  from 12(3) obtain f' where f: "f = Suc f'" by (cases f) auto
  let ?after = "CHR '':'' # CHR '' '' # json_encode v @ CHR ''}'' # rest"
  obtain cs where c: "encode_string k @ ?after = CHR 0x22 # cs" "parse_chars cs = Some (k, ?after)"
    using parse_chars_encode_string [of k ?after] by auto
  have sk: "skip_ws s = CHR 0x22 # cs" using 12(4) c by simp
  have "length (json_encode v) \<le> f'" using 12(3) f by simp
  from "12.IH" [OF this, of "CHR '' '' # json_encode v @ CHR ''}'' # rest" "CHR ''}'' # rest"]
  have pv: "parse_value f' (CHR '' '' # json_encode v @ CHR ''}'' # rest)
      = Some (jsonable v, CHR ''}'' # rest)"
    by (simp add: skip_ws_space_json_encode)
  show ?case unfolding f using sk c pv by (simp add: skip_ws_Cons is_ws_def)
next
  case (13 k v m ms)
  from 13(4) obtain f' where f: "f = Suc f'" by (cases f) auto
  let ?tail = "encode_members (m # ms) @ CHR ''}'' # rest"
  let ?after = "CHR '':'' # CHR '' '' # json_encode v @ CHR '','' # CHR '' '' # ?tail"
  obtain cs where c: "encode_string k @ ?after = CHR 0x22 # cs" "parse_chars cs = Some (k, ?after)"
    using parse_chars_encode_string [of k ?after] by auto
  have sk: "skip_ws s = CHR 0x22 # cs" using 13(5) c by simp
  have "length (json_encode v) \<le> f'" using 13(4) f by simp
  from "13.IH"(1) [OF this, of "CHR '' '' # json_encode v @ CHR '','' # CHR '' '' # ?tail"
      "CHR '','' # CHR '' '' # ?tail"]
  have pv: "parse_value f' (CHR '' '' # json_encode v @ CHR '','' # CHR '' '' # ?tail)
      = Some (jsonable v, CHR '','' # CHR '' '' # ?tail)"
    by (simp add: skip_ws_space_json_encode)
  obtain cs' where h: "encode_members (m # ms) = CHR 0x22 # cs'"
    using encode_members_head [of "m # ms"] by auto
  have s2: "skip_ws (CHR '' '' # ?tail) = ?tail"
    using h by (simp add: skip_ws_space skip_ws_Cons is_ws_def)
  have "length (encode_members (m # ms)) < f'" using 13(4) f by simp
  from "13.IH"(2) [OF _ this s2]
  have pm: "parse_members f' (CHR '' '' # ?tail)
      = Some (map (\<lambda>kv. (fst kv, jsonable (snd kv))) (m # ms), rest)" by simp
  show ?case unfolding f using sk c pv pm by (simp add: skip_ws_Cons is_ws_def)
qed

lemma json_loads_json_encode: "json_loads (json_encode v) = Some (jsonable v)"
proof -
  have "parse_value (Suc (length (json_encode v))) (json_encode v) = Some (jsonable v, [])"
    using parse_roundtrip(1) [of v "Suc (length (json_encode v))" "json_encode v" "[]"]
      skip_ws_json_encode [of v "[]"]
    by (simp del: parse_value.simps)
  then show ?thesis by (simp add: json_loads_def skip_ws_def del: parse_value.simps)
qed

section \<open>The normaliser and the splitter\<close>

lemma split_block_data_inputs:
  "split_block c (self\<lparr>data_inputs := x\<rparr>) sep ds w = split_block c self sep ds w"
  by (simp add: split_block_def splitter_args_of_def)

lemma resolved_separator_data_inputs:
  "resolved_separator c (self\<lparr>data_inputs := x\<rparr>) = resolved_separator c self"
  by (simp add: resolved_separator_def)

lemma split_text_base_documents:
  "split_text_base c self w =
     (case input_documents c self of
        Inl e \<Rightarrow> Inl e
      | Inr ds \<Rightarrow> split_block c self (resolved_separator c self) ds w)"
proof (cases "data_inputs self")
  case (MessageIn m)
  have "split_text_base c self w = split_text_base c (self\<lparr>data_inputs := ListIn [DataElem m]\<rparr>) w"
    using MessageIn by (subst split_text_base.simps) simp
  also have "\<dots> = (case input_documents c self of
        Inl e \<Rightarrow> Inl e
      | Inr ds \<Rightarrow> split_block c self (resolved_separator c self) ds w)"
    using MessageIn
    by (subst split_text_base.simps)
       (simp add: input_documents_def split_block_data_inputs resolved_separator_data_inputs
          split: sum.splits)
  finally show ?thesis .
qed (subst split_text_base.simps; simp add: input_documents_def split: sum.splits)+

lemma create_chunks_props:
  "create_chunks m chunks w = (ds, w1) \<Longrightarrow>
     map page_content ds = chunks
     \<and> map metadata ds = map Some [next_addr w ..< next_addr w + length chunks]
     \<and> next_addr w1 = next_addr w + length chunks
     \<and> uuid_drawn w1 = uuid_drawn w
     \<and> clock_read w1 = clock_read w
     \<and> (\<forall>a. heap w1 a =
            (if next_addr w \<le> a \<and> a < next_addr w + length chunks then m else heap w a))"
proof (induction chunks arbitrary: w ds)
  case Nil
  then show ?case by auto
next
  case (Cons ch chunks)
  let ?w = "w\<lparr>heap := (heap w)(next_addr w := m), next_addr := Suc (next_addr w)\<rparr>"
  obtain ds' where r: "create_chunks m chunks ?w = (ds', w1)"
    and ds: "ds = \<lparr>page_content = ch, metadata = Some (next_addr w)\<rparr> # ds'"
    using Cons.prems by (auto simp: alloc_def split: prod.splits)
  have u: "[next_addr w ..< next_addr w + length (ch # chunks)]
      = next_addr w # [Suc (next_addr w) ..< Suc (next_addr w) + length chunks]"
    by (subst upt_conv_Cons) simp_all
  from Cons.IH [OF r] show ?case
    unfolding ds u by auto
qed


lemma split_documents_props:
  "split_documents c args vds w = Inr (ds, w1) \<Longrightarrow>
     (\<forall>d\<in>set vds. \<exists>chunks. splitter_split_text c args (v_page_content d) = Inr chunks)
     \<and> map page_content ds = concat (map (chunks_of c args) vds)
     \<and> map metadata ds = map Some [next_addr w ..< next_addr w + length ds]
     \<and> next_addr w1 = next_addr w + length ds
     \<and> uuid_drawn w1 = uuid_drawn w
     \<and> clock_read w1 = clock_read w
     \<and> map (heap w1) [next_addr w ..< next_addr w + length ds] = chunk_metadatas c args vds
     \<and> (\<forall>a<next_addr w. heap w1 a = heap w a)"
proof (induction vds arbitrary: w ds)
  case Nil
  then show ?case by (simp add: chunk_metadatas_def)
next
  case (Cons d vds)
  from Cons.prems obtain chunks where ch: "splitter_split_text c args (v_page_content d) = Inr chunks"
    by (cases "splitter_split_text c args (v_page_content d)") simp_all
  obtain cs wm where cc: "create_chunks (v_metadata d) chunks w = (cs, wm)"
    by (cases "create_chunks (v_metadata d) chunks w") auto
  from Cons.prems ch cc obtain rest where sd: "split_documents c args vds wm = Inr (rest, w1)"
    and ds: "ds = cs @ rest"
    by (cases "split_documents c args vds wm") auto
  let ?n = "next_addr w"
  from create_chunks_props [OF cc]
  have p1: "map page_content cs = chunks"
    and p2: "map metadata cs = map Some [?n ..< ?n + length chunks]"
    and nm: "next_addr wm = ?n + length chunks"
    and p4: "uuid_drawn wm = uuid_drawn w"
    and p5: "clock_read wm = clock_read w"
    and p6: "\<And>a. heap wm a = (if ?n \<le> a \<and> a < ?n + length chunks then v_metadata d else heap w a)"
    by simp_all
  from Cons.IH [OF sd]
  have i0: "\<forall>d\<in>set vds. \<exists>chunks. splitter_split_text c args (v_page_content d) = Inr chunks"
    and i1: "map page_content rest = concat (map (chunks_of c args) vds)"
    and i2: "map metadata rest = map Some [next_addr wm ..< next_addr wm + length rest]"
    and i3: "next_addr w1 = next_addr wm + length rest"
    and i4: "uuid_drawn w1 = uuid_drawn wm"
    and i5: "clock_read w1 = clock_read wm"
    and i6: "map (heap w1) [next_addr wm ..< next_addr wm + length rest] = chunk_metadatas c args vds"
    and i7: "\<And>a. a < next_addr wm \<Longrightarrow> heap w1 a = heap wm a"
    by simp_all
  have lcs: "length cs = length chunks" using p1 by (metis length_map)
  have co: "chunks_of c args d = chunks" using ch by (simp add: chunks_of_def)
  have ld: "length ds = length chunks + length rest" by (simp add: ds lcs)
  have "[?n ..< (?n + length chunks) + length rest]
      = [?n ..< ?n + length chunks] @ [?n + length chunks ..< (?n + length chunks) + length rest]"
    by (rule upt_add_eq_append) simp
  then have split: "[?n ..< ?n + length ds]
      = [?n ..< ?n + length chunks] @ [?n + length chunks ..< ?n + length chunks + length rest]"
    by (simp only: ld add.assoc)
  have first: "map (heap w1) [?n ..< ?n + length chunks] = replicate (length chunks) (v_metadata d)"
  proof -
    have "map (heap w1) [?n ..< ?n + length chunks] = map (\<lambda>a. v_metadata d) [?n ..< ?n + length chunks]"
    proof (rule map_cong [OF refl])
      fix a assume "a \<in> set [?n ..< ?n + length chunks]"
      then have r: "?n \<le> a" "a < ?n + length chunks" by simp_all
      then have "heap w1 a = heap wm a" using i7 [of a] nm by simp
      also have "\<dots> = v_metadata d" using p6 [of a] r by simp
      finally show "heap w1 a = v_metadata d" .
    qed
    then show ?thesis by (simp add: map_replicate_const)
  qed
  have c1: "\<forall>d'\<in>set (d # vds). \<exists>chunks. splitter_split_text c args (v_page_content d') = Inr chunks"
    using ch i0 by simp
  have c2: "map page_content ds = concat (map (chunks_of c args) (d # vds))"
    by (simp add: ds p1 i1 co)
  have c3: "map metadata ds = map Some [?n ..< ?n + length ds]"
    unfolding split by (simp add: ds p2 i2 nm)
  have c4: "next_addr w1 = ?n + length ds" by (simp add: i3 nm ld)
  have c5: "uuid_drawn w1 = uuid_drawn w" by (simp add: i4 p4)
  have c6: "clock_read w1 = clock_read w" by (simp add: i5 p5)
  have c7: "map (heap w1) [?n ..< ?n + length ds] = chunk_metadatas c args (d # vds)"
    unfolding split using i6 by (simp add: first nm chunk_metadatas_def co)
  have c8: "\<forall>a<?n. heap w1 a = heap w a"
  proof (intro allI impI)
    fix a assume a: "a < ?n"
    then have "heap w1 a = heap wm a" using i7 [of a] nm by simp
    also have "\<dots> = heap w a" using p6 [of a] a by simp
    finally show "heap w1 a = heap w a" .
  qed
  from c1 c2 c3 c4 c5 c6 c7 c8 show ?case by blast
qed

lemma split_documents_succeeds:
  "\<forall>d\<in>set vds. \<exists>chunks. splitter_split_text c args (v_page_content d) = Inr chunks \<Longrightarrow>
   \<exists>ds w1. split_documents c args vds w = Inr (ds, w1)"
proof (induction vds arbitrary: w)
  case Nil
  show ?case by simp
next
  case (Cons d vds)
  from Cons.prems obtain chunks where ch: "splitter_split_text c args (v_page_content d) = Inr chunks"
    by auto
  obtain cs wm where cc: "create_chunks (v_metadata d) chunks w = (cs, wm)"
    by (cases "create_chunks (v_metadata d) chunks w") auto
  from Cons.IH [of wm] Cons.prems obtain ds w1 where "split_documents c args vds wm = Inr (ds, w1)"
    by auto
  with ch cc show ?case by simp
qed

section \<open>The record mapper, turn by turn\<close>

lemma map_of_stamped:
  "map_of (stamped idx fresh m) k =
     (if k = ''source_id'' then Some (case map_of m ''source_id'' of None \<Rightarrow> PStr fresh | Some v \<Rightarrow> v)
      else if k = ''chunk_index'' then Some (PInt (int idx))
      else map_of m k)"
  by (simp add: stamped_def Let_def update_conv' dict_get_def)

lemma keys_stamped:
  "fst ` set (stamped idx fresh m) = insert ''chunk_index'' (insert ''source_id'' (fst ` set m))"
  by (auto simp: stamped_def Let_def dom_update)

lemma oracle_record_Some:
  assumes "metadata doc = Some a"
  shows "oracle_record c idx doc w =
     (\<lparr>o_id = uuid4 c (uuid_drawn w), o_text = page_content doc,
       o_metadata = json_dumps (stamped idx (uuid4 c (Suc (uuid_drawn w))) (heap w a)),
       o_embedding = PNone, o_created_at = utcnow c (clock_read w), o_source_metadata = a\<rparr>,
      w\<lparr>heap := (heap w)(a := stamped idx (uuid4 c (Suc (uuid_drawn w))) (heap w a)),
        uuid_drawn := Suc (Suc (uuid_drawn w)), clock_read := Suc (clock_read w)\<rparr>)"
  using assms
  by (simp add: oracle_record_def generate_id_def setitem_def utcnow_isoformat_def stamped_def
      Let_def)

lemma oracle_record_None:
  assumes "metadata doc = None"
  shows "oracle_record c idx doc w =
     (\<lparr>o_id = uuid4 c (uuid_drawn w), o_text = page_content doc,
       o_metadata = json_dumps (stamped idx (uuid4 c (Suc (uuid_drawn w))) []),
       o_embedding = PNone, o_created_at = utcnow c (clock_read w),
       o_source_metadata = next_addr w\<rparr>,
      w\<lparr>heap := (heap w)(next_addr w := stamped idx (uuid4 c (Suc (uuid_drawn w))) []),
        next_addr := Suc (next_addr w),
        uuid_drawn := Suc (Suc (uuid_drawn w)), clock_read := Suc (clock_read w)\<rparr>)"
  using assms
  by (simp add: oracle_record_def generate_id_def setitem_def utcnow_isoformat_def stamped_def
      alloc_def Let_def)

lemma oracle_record_counters:
  assumes "oracle_record c idx doc w = (r, w1)"
  shows "o_id r = uuid4 c (uuid_drawn w)" "o_text r = page_content doc" "o_embedding r = PNone"
    "o_created_at r = utcnow c (clock_read w)"
    "uuid_drawn w1 = Suc (Suc (uuid_drawn w))" "clock_read w1 = Suc (clock_read w)"
  using assms
  by (cases "metadata doc"; auto simp: oracle_record_Some oracle_record_None)+


lemma enumerate_docs_counters:
  "enumerate_docs c idx docs w = (rs, w') \<Longrightarrow>
     length rs = length docs
     \<and> uuid_drawn w' = uuid_drawn w + 2 * length docs
     \<and> clock_read w' = clock_read w + length docs
     \<and> (\<forall>i<length docs.
           o_id (rs ! i) = uuid4 c (uuid_drawn w + 2 * i)
           \<and> o_text (rs ! i) = page_content (docs ! i)
           \<and> o_embedding (rs ! i) = PNone
           \<and> o_created_at (rs ! i) = utcnow c (clock_read w + i))"
proof (induction docs arbitrary: idx w rs)
  case Nil
  then show ?case by simp
next
  case (Cons doc docs)
  obtain r w1 where o: "oracle_record c idx doc w = (r, w1)"
    by (cases "oracle_record c idx doc w") auto
  obtain rs1 where e: "enumerate_docs c (Suc idx) docs w1 = (rs1, w')" and rs: "rs = r # rs1"
    using Cons.prems o by (cases "enumerate_docs c (Suc idx) docs w1") auto
  note oc = oracle_record_counters [OF o]
  from Cons.IH [OF e]
  have l: "length rs1 = length docs"
    and u: "uuid_drawn w' = uuid_drawn w1 + 2 * length docs"
    and t: "clock_read w' = clock_read w1 + length docs"
    and ih: "\<And>i. i < length docs \<Longrightarrow>
           o_id (rs1 ! i) = uuid4 c (uuid_drawn w1 + 2 * i)
           \<and> o_text (rs1 ! i) = page_content (docs ! i)
           \<and> o_embedding (rs1 ! i) = PNone
           \<and> o_created_at (rs1 ! i) = utcnow c (clock_read w1 + i)"
    by simp_all
  have "\<forall>i<length (doc # docs).
           o_id (rs ! i) = uuid4 c (uuid_drawn w + 2 * i)
           \<and> o_text (rs ! i) = page_content ((doc # docs) ! i)
           \<and> o_embedding (rs ! i) = PNone
           \<and> o_created_at (rs ! i) = utcnow c (clock_read w + i)"
  proof (intro allI impI)
    fix i assume i: "i < length (doc # docs)"
    show "o_id (rs ! i) = uuid4 c (uuid_drawn w + 2 * i)
           \<and> o_text (rs ! i) = page_content ((doc # docs) ! i)
           \<and> o_embedding (rs ! i) = PNone
           \<and> o_created_at (rs ! i) = utcnow c (clock_read w + i)"
    proof (cases i)
      case 0
      then show ?thesis using oc by (simp add: rs)
    next
      case (Suc j)
      then have "j < length docs" using i by simp
      from ih [OF this] show ?thesis using oc by (simp add: rs Suc)
    qed
  qed
  then show ?case using l u t oc by (simp add: rs)
qed

text \<open>Every document holding a dict object: the loop creates no object, and the keys
  of every dict only grow.\<close>

lemma enumerate_docs_keys_grow:
  "\<forall>d\<in>set docs. metadata d \<noteq> None \<Longrightarrow> enumerate_docs c idx docs w = (rs, w') \<Longrightarrow>
     next_addr w' = next_addr w \<and> fst ` set (heap w a) \<subseteq> fst ` set (heap w' a)"
proof (induction docs arbitrary: idx w rs)
  case Nil
  then show ?case by simp
next
  case (Cons doc docs)
  from Cons.prems obtain b where b: "metadata doc = Some b" by auto
  let ?w1 = "w\<lparr>heap := (heap w)(b := stamped idx (uuid4 c (Suc (uuid_drawn w))) (heap w b)),
        uuid_drawn := Suc (Suc (uuid_drawn w)), clock_read := Suc (clock_read w)\<rparr>"
  obtain rs1 where e: "enumerate_docs c (Suc idx) docs ?w1 = (rs1, w')"
    using Cons.prems(2) by (cases "enumerate_docs c (Suc idx) docs ?w1")
      (auto simp: oracle_record_Some [OF b])
  have all: "\<forall>d\<in>set docs. metadata d \<noteq> None" using Cons.prems by simp
  from Cons.IH [OF all e]
  have n: "next_addr w' = next_addr ?w1" and k: "fst ` set (heap ?w1 a) \<subseteq> fst ` set (heap w' a)"
    by simp_all
  have "fst ` set (heap w a) \<subseteq> fst ` set (heap ?w1 a)"
    by (auto simp: keys_stamped)
  with n k show ?case by auto
qed

lemma enumerate_docs_in_place:
  "\<forall>d\<in>set docs. metadata d \<noteq> None \<Longrightarrow> enumerate_docs c idx docs w = (rs, w') \<Longrightarrow>
     i < length docs \<Longrightarrow>
     metadata (docs ! i) = Some (o_source_metadata (rs ! i))
     \<and> ''chunk_index'' \<in> fst ` set (heap w' (o_source_metadata (rs ! i)))
     \<and> ''source_id'' \<in> fst ` set (heap w' (o_source_metadata (rs ! i)))"
proof (induction docs arbitrary: idx w rs i)
  case Nil
  then show ?case by simp
next
  case (Cons doc docs)
  from Cons.prems obtain b where b: "metadata doc = Some b" by auto
  let ?m = "stamped idx (uuid4 c (Suc (uuid_drawn w))) (heap w b)"
  let ?w1 = "w\<lparr>heap := (heap w)(b := ?m),
        uuid_drawn := Suc (Suc (uuid_drawn w)), clock_read := Suc (clock_read w)\<rparr>"
  let ?r = "\<lparr>o_id = uuid4 c (uuid_drawn w), o_text = page_content doc,
       o_metadata = json_dumps ?m,
       o_embedding = PNone, o_created_at = utcnow c (clock_read w), o_source_metadata = b\<rparr>"
  obtain rs1 where e: "enumerate_docs c (Suc idx) docs ?w1 = (rs1, w')" and rs: "rs = ?r # rs1"
    using Cons.prems(2) by (cases "enumerate_docs c (Suc idx) docs ?w1")
      (auto simp: oracle_record_Some [OF b])
  have all: "\<forall>d\<in>set docs. metadata d \<noteq> None" using Cons.prems by simp
  show ?case
  proof (cases i)
    case 0
    have "fst ` set (heap ?w1 b) \<subseteq> fst ` set (heap w' b)"
      using enumerate_docs_keys_grow [OF all e, of b] by simp
    moreover have "''chunk_index'' \<in> fst ` set (heap ?w1 b)" "''source_id'' \<in> fst ` set (heap ?w1 b)"
      by (simp_all add: keys_stamped)
    ultimately show ?thesis using b by (auto simp: rs 0)
  next
    case (Suc j)
    then have "j < length docs" using Cons.prems(3) by simp
    from Cons.IH [OF all e this] show ?thesis by (simp add: rs Suc)
  qed
qed


lemma enumerate_docs_frame:
  "map metadata docs = map Some as \<Longrightarrow> enumerate_docs c idx docs w = (rs, w') \<Longrightarrow>
     a \<notin> set as \<Longrightarrow> heap w' a = heap w a"
proof (induction docs arbitrary: idx w rs as)
  case Nil
  then show ?case by simp
next
  case (Cons doc docs)
  from Cons.prems(1) obtain b bs where as: "as = b # bs" and b: "metadata doc = Some b"
    and bs: "map metadata docs = map Some bs"
    by (cases as) auto
  let ?w1 = "w\<lparr>heap := (heap w)(b := stamped idx (uuid4 c (Suc (uuid_drawn w))) (heap w b)),
        uuid_drawn := Suc (Suc (uuid_drawn w)), clock_read := Suc (clock_read w)\<rparr>"
  obtain rs1 where e: "enumerate_docs c (Suc idx) docs ?w1 = (rs1, w')"
    using Cons.prems(2) by (cases "enumerate_docs c (Suc idx) docs ?w1")
      (auto simp: oracle_record_Some [OF b])
  have "a \<notin> set bs" "a \<noteq> b" using Cons.prems(3) as by auto
  with Cons.IH [OF bs e] show ?case by simp
qed

lemma enumerate_docs_distinct:
  "map metadata docs = map Some as \<Longrightarrow> distinct as \<Longrightarrow>
   enumerate_docs c idx docs w = (rs, w') \<Longrightarrow> i < length docs \<Longrightarrow>
     o_metadata (rs ! i)
       = json_dumps (stamped (idx + i) (uuid4 c (Suc (uuid_drawn w + 2 * i))) (heap w (as ! i)))
     \<and> o_source_metadata (rs ! i) = as ! i
     \<and> heap w' (as ! i) = stamped (idx + i) (uuid4 c (Suc (uuid_drawn w + 2 * i))) (heap w (as ! i))"
proof (induction docs arbitrary: idx w rs as i)
  case Nil
  then show ?case by simp
next
  case (Cons doc docs)
  from Cons.prems(1) obtain b bs where as: "as = b # bs" and b: "metadata doc = Some b"
    and bs: "map metadata docs = map Some bs"
    by (cases as) auto
  let ?m = "stamped idx (uuid4 c (Suc (uuid_drawn w))) (heap w b)"
  let ?w1 = "w\<lparr>heap := (heap w)(b := ?m),
        uuid_drawn := Suc (Suc (uuid_drawn w)), clock_read := Suc (clock_read w)\<rparr>"
  let ?r = "\<lparr>o_id = uuid4 c (uuid_drawn w), o_text = page_content doc,
       o_metadata = json_dumps ?m,
       o_embedding = PNone, o_created_at = utcnow c (clock_read w), o_source_metadata = b\<rparr>"
  obtain rs1 where e: "enumerate_docs c (Suc idx) docs ?w1 = (rs1, w')" and rs: "rs = ?r # rs1"
    using Cons.prems(3) by (cases "enumerate_docs c (Suc idx) docs ?w1")
      (auto simp: oracle_record_Some [OF b])
  have d: "distinct bs" "b \<notin> set bs" using Cons.prems(2) as by auto
  have lb: "length bs = length docs" using bs by (metis length_map)
  show ?case
  proof (cases i)
    case 0
    have "heap w' b = heap ?w1 b" using enumerate_docs_frame [OF bs e d(2)] .
    then show ?thesis by (simp add: rs as 0)
  next
    case (Suc j)
    then have j: "j < length docs" using Cons.prems(4) by simp
    then have "bs ! j \<in> set bs" using lb by simp
    then have ne: "bs ! j \<noteq> b" using d by auto
    from Cons.IH [OF bs d(1) e j] ne show ?thesis by (simp add: rs as Suc)
  qed
qed

section \<open>The whole pipeline\<close>

lemma length_chunk_metadatas:
  "length (chunk_metadatas c args vds) = sum_list (map (\<lambda>d. length (chunks_of c args d)) vds)"
  by (simp add: chunk_metadatas_def length_concat comp_def)

lemma length_concat_chunks:
  "length (concat (map (chunks_of c args) vds)) = sum_list (map (\<lambda>d. length (chunks_of c args d)) vds)"
  by (simp add: length_concat comp_def)

lemma map_of_jsonable:
  "map_of (map (\<lambda>kv. (fst kv, jsonable (snd kv))) m) k = map_option jsonable (map_of m k)"
  by (induction m) auto

lemma json_loads_json_dumps:
  "json_loads (json_dumps m) = Some (PDict (map (\<lambda>kv. (fst kv, jsonable (snd kv))) m))"
  unfolding json_dumps_def json_loads_json_encode by simp

lemma metadata_entry_json_dumps:
  "metadata_entry (json_dumps m) k = map_option jsonable (map_of m k)"
  by (simp add: metadata_entry_def json_loads_json_dumps map_of_jsonable)

lemma split_text_succeeds:
  assumes "input_documents c self = Inr vds"
    and "splitter_init c (component_args c self) = None"
    and "\<forall>d\<in>set vds. \<exists>chunks. splitter_split_text c (component_args c self) (v_page_content d) = Inr chunks"
  shows "\<exists>rs w'. split_text c self w = Inr (rs, w')"
proof -
  obtain ds w1 where "split_documents c (component_args c self) vds w = Inr (ds, w1)"
    using split_documents_succeeds [OF assms(3), of w] by auto
  with assms(1,2) show ?thesis
    by (cases "docs_to_oracle_data c ds w1")
       (simp add: split_text_def split_text_base_documents split_block_def component_args_def)
qed

lemma split_text_records:
  assumes "split_text c self w = Inr (rs, w')"
  shows "\<exists>vds. input_documents c self = Inr vds
      \<and> splitter_init c (component_args c self) = None
      \<and> (\<forall>d\<in>set vds. \<exists>chunks.
            splitter_split_text c (component_args c self) (v_page_content d) = Inr chunks)
      \<and> length rs = length (chunk_metadatas c (component_args c self) vds)
      \<and> map o_text rs = concat (map (chunks_of c (component_args c self)) vds)
      \<and> next_addr w' = next_addr w + length rs
      \<and> (\<forall>k<length rs.
            o_id (rs ! k) = uuid4 c (uuid_drawn w + 2 * k)
            \<and> o_embedding (rs ! k) = PNone
            \<and> o_created_at (rs ! k) = utcnow c (clock_read w + k)
            \<and> o_metadata (rs ! k)
                = json_dumps (stamped k (uuid4 c (Suc (uuid_drawn w + 2 * k)))
                    (chunk_metadatas c (component_args c self) vds ! k))
            \<and> o_source_metadata (rs ! k) = next_addr w + k
            \<and> heap w' (next_addr w + k)
                = stamped k (uuid4 c (Suc (uuid_drawn w + 2 * k)))
                    (chunk_metadatas c (component_args c self) vds ! k))"
proof -
  let ?args = "component_args c self"
  from assms obtain vds where inp: "input_documents c self = Inr vds"
    by (cases "input_documents c self") (simp_all add: split_text_def split_text_base_documents)
  from assms inp have ini: "splitter_init c ?args = None"
    by (cases "splitter_init c ?args")
       (simp_all add: split_text_def split_text_base_documents split_block_def component_args_def)
  from assms inp ini obtain ds w1 where sd: "split_documents c ?args vds w = Inr (ds, w1)"
    and en: "enumerate_docs c 0 ds w1 = (rs, w')"
    by (cases "split_documents c ?args vds w")
       (auto simp: split_text_def split_text_base_documents split_block_def component_args_def
          docs_to_oracle_data_def)
  let ?n = "next_addr w"
  let ?as = "[?n ..< ?n + length ds]"
  from split_documents_props [OF sd]
  have s0: "\<forall>d\<in>set vds. \<exists>chunks. splitter_split_text c ?args (v_page_content d) = Inr chunks"
    and s1: "map page_content ds = concat (map (chunks_of c ?args) vds)"
    and s2: "map metadata ds = map Some ?as"
    and s3: "next_addr w1 = ?n + length ds"
    and s4: "uuid_drawn w1 = uuid_drawn w"
    and s5: "clock_read w1 = clock_read w"
    and s6: "map (heap w1) ?as = chunk_metadatas c ?args vds"
    by simp_all
  from enumerate_docs_counters [OF en]
  have e1: "length rs = length ds"
    and e2: "\<And>i. i < length ds \<Longrightarrow>
           o_id (rs ! i) = uuid4 c (uuid_drawn w1 + 2 * i)
           \<and> o_text (rs ! i) = page_content (ds ! i)
           \<and> o_embedding (rs ! i) = PNone
           \<and> o_created_at (rs ! i) = utcnow c (clock_read w1 + i)"
    by simp_all
  have lm: "length (chunk_metadatas c ?args vds) = length ds"
    using arg_cong [OF s6, of length] by simp
  have texts: "map o_text rs = map page_content ds"
    by (rule nth_equalityI) (simp_all add: e1 e2)
  have some: "\<forall>d\<in>set ds. metadata d \<noteq> None"
  proof
    fix d assume "d \<in> set ds"
    then have "metadata d \<in> set (map metadata ds)" by simp
    then show "metadata d \<noteq> None" unfolding s2 by auto
  qed
  have na: "next_addr w' = next_addr w1"
    using enumerate_docs_keys_grow [OF some en, of 0] by simp
  have recs: "\<forall>k<length rs.
            o_id (rs ! k) = uuid4 c (uuid_drawn w + 2 * k)
            \<and> o_embedding (rs ! k) = PNone
            \<and> o_created_at (rs ! k) = utcnow c (clock_read w + k)
            \<and> o_metadata (rs ! k)
                = json_dumps (stamped k (uuid4 c (Suc (uuid_drawn w + 2 * k)))
                    (chunk_metadatas c ?args vds ! k))
            \<and> o_source_metadata (rs ! k) = ?n + k
            \<and> heap w' (?n + k)
                = stamped k (uuid4 c (Suc (uuid_drawn w + 2 * k)))
                    (chunk_metadatas c ?args vds ! k)"
  proof (intro allI impI)
    fix k assume "k < length rs"
    then have k: "k < length ds" using e1 by simp
    have ask: "?as ! k = ?n + k" using k by simp
    have hk: "heap w1 (?n + k) = chunk_metadatas c ?args vds ! k"
    proof -
      have "chunk_metadatas c ?args vds ! k = map (heap w1) ?as ! k" by (simp only: s6)
      also have "\<dots> = heap w1 (?as ! k)" using k by (simp only: nth_map length_upt add_diff_cancel_left')
      finally show ?thesis using ask by simp
    qed
    from enumerate_docs_distinct [OF s2 distinct_upt en k] e2 [OF k]
    show "o_id (rs ! k) = uuid4 c (uuid_drawn w + 2 * k)
            \<and> o_embedding (rs ! k) = PNone
            \<and> o_created_at (rs ! k) = utcnow c (clock_read w + k)
            \<and> o_metadata (rs ! k)
                = json_dumps (stamped k (uuid4 c (Suc (uuid_drawn w + 2 * k)))
                    (chunk_metadatas c ?args vds ! k))
            \<and> o_source_metadata (rs ! k) = ?n + k
            \<and> heap w' (?n + k)
                = stamped k (uuid4 c (Suc (uuid_drawn w + 2 * k)))
                    (chunk_metadatas c ?args vds ! k)"
      unfolding ask hk s4 s5 by simp
  qed
  from inp ini s0 recs show ?thesis
    by (intro exI [of _ vds]) (simp add: lm e1 texts s1 na s3)
qed

section \<open>Running the pipeline on concrete inputs\<close>

lemma char_of_eq_iff_nat: "(char_of (n::nat) = ch) = (n mod 256 = of_char ch)"
proof -
  have "(char_of n = ch) = ((of_char (char_of n) :: nat) = of_char ch)"
    by (simp only: of_char_eq_iff)
  then show ?thesis by simp
qed

lemmas run_defs = libraries_def default_component_def dot_component_def text_data_def
  empty_dataframe_def input_documents_def component_args_def splitter_args_of_def
  resolved_separator_def fix_separator_def lower_def lfx_to_lc_document_def
  lfx_to_lc_documents_def pop_text_def py_str_def character_splitter_init_def chunks_of_def
  character_split_text_def split_text_with_regex_def keep_truthy_def merge_splits_def
  merge_step_def join_docs_def strip_def is_space_def chunk_metadatas_def char_of_eq_iff_nat

lemma default_args:
  "component_args libraries (default_component x)
     = \<lparr>sp_chunk_overlap = 200, sp_chunk_size = 1000, sp_separator = [CHR 0x0A],
        sp_keep_separator = KeepBool False\<rparr>"
  by (simp add: run_defs)

lemma dot_args:
  "component_args libraries (dot_component x)
     = \<lparr>sp_chunk_overlap = 0, sp_chunk_size = 1, sp_separator = ''.'',
        sp_keep_separator = KeepBool False\<rparr>"
  by (simp add: run_defs)

section \<open>Input errors\<close>

text \<open>
  C4, as the code has it. A \<open>DataFrame\<close> with no rows makes \<open>split_text\<close> raise
  \<open>TypeError("DataFrame is empty")\<close> and a \<open>None\<close> input makes it raise
  \<open>TypeError("No data inputs provided")\<close>, whatever the collaborators and the other
  options are; the error is the whole result, so no record is emitted. The two errors
  have the same class and differ in their message only.
\<close>

theorem empty_and_absent_errors:
  "split_text c (self\<lparr>data_inputs := DataFrameIn (df\<lparr>df_rows := []\<rparr>)\<rparr>) w
     = Inl (PyExc TypeError ''DataFrame is empty'')
   \<and> split_text c (self\<lparr>data_inputs := NoneIn\<rparr>) w
     = Inl (PyExc TypeError ''No data inputs provided'')"
  by (simp add: split_text_def split_text_base_documents input_documents_def)

text \<open>
  C4, as stated, fails: the error for the empty \<open>DataFrame\<close> and the error for the
  absent input are not of two kinds, both are \<open>TypeError\<close>.
\<close>

theorem empty_and_absent_same_class:
  "split_text libraries (default_component (DataFrameIn empty_dataframe)) world0
     = Inl (PyExc TypeError ''DataFrame is empty'')
   \<and> split_text libraries (default_component NoneIn) world0
     = Inl (PyExc TypeError ''No data inputs provided'')
   \<and> exc_cls (projl (split_text libraries (default_component (DataFrameIn empty_dataframe)) world0))
     = exc_cls (projl (split_text libraries (default_component NoneIn) world0))"
  by (simp add: split_text_def split_text_base_documents input_documents_def
      default_component_def empty_dataframe_def)

section \<open>List inputs\<close>

lemma data_documents_filter: "data_documents c (filter is_data xs) = data_documents c xs"
  by (induction c xs rule: data_documents.induct) (simp_all split: sum.splits)

text \<open>
  C3, as the code has it. On a non-empty list input the elements that are not \<open>Data\<close>
  instances are left out silently: the run is the run on the \<open>Data\<close> elements
  alone. It fails with \<open>TypeError("No valid Data inputs found in <class 'list'>")\<close>
  when no element is a \<open>Data\<close> instance, and when the conversion of a \<open>Data\<close>
  element raises, with that error, turned into a \<open>TypeError\<close> if it is an
  \<open>AttributeError\<close>.
\<close>

theorem list_input_drops_non_data:
  assumes "xs \<noteq> []"
  shows "split_text c (self\<lparr>data_inputs := ListIn xs\<rparr>) w =
     (if filter is_data xs = []
      then Inl (PyExc TypeError
             (''No valid Data inputs found in <class '' @ [CHR 0x27] @ ''list'' @ [CHR 0x27] @ ''>''))
      else split_text c (self\<lparr>data_inputs := ListIn (filter is_data xs)\<rparr>) w)
    \<and> (\<forall>e. data_documents c xs = Inl e \<longrightarrow>
          split_text c (self\<lparr>data_inputs := ListIn xs\<rparr>) w
            = Inl (if exc_cls e = AttributeError
                   then PyExc TypeError (''Invalid input type in collection: '' @ exc_msg e)
                   else e))"
proof (intro conjI allI impI)
  show "split_text c (self\<lparr>data_inputs := ListIn xs\<rparr>) w =
     (if filter is_data xs = []
      then Inl (PyExc TypeError
             (''No valid Data inputs found in <class '' @ [CHR 0x27] @ ''list'' @ [CHR 0x27] @ ''>''))
      else split_text c (self\<lparr>data_inputs := ListIn (filter is_data xs)\<rparr>) w)"
  proof (cases "filter is_data xs = []")
    case True
    then have "data_documents c xs = Inr []"
      using data_documents_filter [of c xs] by simp
    with assms True show ?thesis
      by (simp add: split_text_def split_text_base_documents input_documents_def)
  next
    case False
    have "input_documents c (self\<lparr>data_inputs := ListIn (filter is_data xs)\<rparr>)
        = input_documents c (self\<lparr>data_inputs := ListIn xs\<rparr>)"
      using assms False by (simp add: input_documents_def data_documents_filter)
    then have "split_text_base c (self\<lparr>data_inputs := ListIn (filter is_data xs)\<rparr>) w
        = split_text_base c (self\<lparr>data_inputs := ListIn xs\<rparr>) w"
      by (simp add: split_text_base_documents split_block_data_inputs
          resolved_separator_data_inputs split: sum.splits)
    with False show ?thesis by (simp add: split_text_def)
  qed
next
  fix e assume "data_documents c xs = Inl e"
  with assms show "split_text c (self\<lparr>data_inputs := ListIn xs\<rparr>) w
            = Inl (if exc_cls e = AttributeError
                   then PyExc TypeError (''Invalid input type in collection: '' @ exc_msg e)
                   else e)"
    by (simp add: split_text_def split_text_base_documents input_documents_def)
qed

text \<open>C3 on a list of one \<open>Data\<close> and one other object: the run is the run on the
  \<open>Data\<close> alone.\<close>

theorem list_input_drops_non_data_witness:
  "[DataElem (text_data ''A''), OtherElem] \<noteq> []
   \<and> split_text libraries (default_component (ListIn [DataElem (text_data ''A''), OtherElem])) world0
     = split_text libraries (default_component (ListIn [DataElem (text_data ''A'')])) world0"
proof -
  have ne: "[DataElem (text_data ''A''), OtherElem] \<noteq> []" by simp
  from list_input_drops_non_data [OF ne, of libraries "default_component NoneIn" world0]
  show ?thesis by (simp add: default_component_def)
qed

text \<open>
  C3, as stated, fails: a list of one \<open>Data\<close> with the text \<open>A\<close> and one object
  that is not a \<open>Data\<close> does not raise; the run returns the record of \<open>A\<close>.
\<close>

theorem invalid_element_dropped:
  "\<not> isl (split_text libraries
            (default_component (ListIn [DataElem (text_data ''A''), OtherElem])) world0)
   \<and> map o_text (fst (projr (split_text libraries
            (default_component (ListIn [DataElem (text_data ''A''), OtherElem])) world0)))
     = [''A'']"
proof -
  let ?self = "default_component (ListIn [DataElem (text_data ''A''), OtherElem])"
  have inp: "input_documents libraries ?self = Inr [\<lparr>v_page_content = ''A'', v_metadata = []\<rparr>]"
    by (simp add: run_defs)
  have ini: "splitter_init libraries (component_args libraries ?self) = None"
    unfolding default_args by (simp add: run_defs)
  have ch: "chunks_of libraries (component_args libraries ?self)
      \<lparr>v_page_content = ''A'', v_metadata = []\<rparr> = [''A'']"
    unfolding default_args by (simp add: run_defs)
  have ok: "\<forall>d\<in>set [\<lparr>v_page_content = ''A'', v_metadata = []\<rparr>]. \<exists>chunks.
      splitter_split_text libraries (component_args libraries ?self) (v_page_content d) = Inr chunks"
    unfolding default_args by (simp add: run_defs)
  obtain rs w' where r: "split_text libraries ?self world0 = Inr (rs, w')"
    using split_text_succeeds [OF inp ini ok] by blast
  from split_text_records [OF r] inp ch have "map o_text rs = [''A'']" by auto
  with r show ?thesis by simp
qed

section \<open>Some runs of the normaliser and the splitter\<close>

lemma two_documents:
  "input_documents libraries (dot_component (ListIn [DataElem (text_data ''A.B''), DataElem (text_data ''C'')]))
     = Inr [\<lparr>v_page_content = ''A.B'', v_metadata = []\<rparr>, \<lparr>v_page_content = ''C'', v_metadata = []\<rparr>]"
  by (simp add: run_defs)

lemma dot_init: "splitter_init libraries (component_args libraries (dot_component x)) = None"
  unfolding dot_args by (simp add: run_defs)

lemma dot_split_AB:
  "splitter_split_text libraries (component_args libraries (dot_component x)) ''A.B'' = Inr [''A'', ''B'']"
  unfolding dot_args by (simp add: run_defs)

lemma dot_split_C:
  "splitter_split_text libraries (component_args libraries (dot_component x)) ''C'' = Inr [''C'']"
  unfolding dot_args by (simp add: run_defs)

lemma dot_split_ABC:
  "splitter_split_text libraries (component_args libraries (dot_component x)) ''A.B.C''
     = Inr [''A'', ''B'', ''C'']"
  unfolding dot_args by (simp add: run_defs)

lemma two_single_chunk_documents:
  "input_documents libraries
     (default_component (ListIn [DataElem (text_data ''A''), DataElem (text_data ''B'')]))
     = Inr [\<lparr>v_page_content = ''A'', v_metadata = []\<rparr>, \<lparr>v_page_content = ''B'', v_metadata = []\<rparr>]"
  by (simp add: run_defs)

lemma default_init: "splitter_init libraries (component_args libraries (default_component x)) = None"
  unfolding default_args by (simp add: run_defs)

lemma default_split_A:
  "splitter_split_text libraries (component_args libraries (default_component x)) ''A'' = Inr [''A'']"
  unfolding default_args by (simp add: run_defs)

lemma default_split_B:
  "splitter_split_text libraries (component_args libraries (default_component x)) ''B'' = Inr [''B'']"
  unfolding default_args by (simp add: run_defs)

section \<open>One record per chunk\<close>

text \<open>
  C6. Whenever an invocation emits records, their number is the sum, over the
  documents the input is normalised to, of the number of chunks the splitter makes
  of each document, and the texts of the records are the chunks themselves, document
  by document and in order: one record per chunk, none dropped or duplicated. And it
  does emit them: when the input normalises to documents, the splitter can be built
  and it splits every document, the invocation returns records, those.
\<close>

theorem record_count:
  "(split_text c self w = Inr (rs, w') \<longrightarrow>
      (\<exists>ds. input_documents c self = Inr ds
         \<and> length rs = sum_list (map (\<lambda>d. length (chunks_of c (component_args c self) d)) ds)
         \<and> map o_text rs = concat (map (chunks_of c (component_args c self)) ds)))
   \<and> (input_documents c self = Inr vds
        \<and> splitter_init c (component_args c self) = None
        \<and> (\<forall>d\<in>set vds. \<exists>chunks.
              splitter_split_text c (component_args c self) (v_page_content d) = Inr chunks) \<longrightarrow>
      (\<exists>rs w'. split_text c self w = Inr (rs, w')
         \<and> length rs = sum_list (map (\<lambda>d. length (chunks_of c (component_args c self) d)) vds)
         \<and> map o_text rs = concat (map (chunks_of c (component_args c self)) vds)))"
proof (intro conjI impI)
  assume r: "split_text c self w = Inr (rs, w')"
  from split_text_records [OF r] obtain ds where inp: "input_documents c self = Inr ds"
    and len: "length rs = length (chunk_metadatas c (component_args c self) ds)"
    and tx: "map o_text rs = concat (map (chunks_of c (component_args c self)) ds)"
    by (elim exE conjE)
  from len have "length rs = sum_list (map (\<lambda>d. length (chunks_of c (component_args c self) d)) ds)"
    by (simp add: length_chunk_metadatas)
  with inp tx
  show "\<exists>ds. input_documents c self = Inr ds
         \<and> length rs = sum_list (map (\<lambda>d. length (chunks_of c (component_args c self) d)) ds)
         \<and> map o_text rs = concat (map (chunks_of c (component_args c self)) ds)"
    by (intro exI [of _ ds] conjI)
next
  assume a: "input_documents c self = Inr vds
        \<and> splitter_init c (component_args c self) = None
        \<and> (\<forall>d\<in>set vds. \<exists>chunks.
              splitter_split_text c (component_args c self) (v_page_content d) = Inr chunks)"
  then have inp: "input_documents c self = Inr vds"
    and ini: "splitter_init c (component_args c self) = None"
    and ok: "\<forall>d\<in>set vds. \<exists>chunks.
              splitter_split_text c (component_args c self) (v_page_content d) = Inr chunks"
    by simp_all
  obtain rs w' where r: "split_text c self w = Inr (rs, w')"
    using split_text_succeeds [OF inp ini ok, of w] by (elim exE)
  from split_text_records [OF r] obtain ds where inp': "input_documents c self = Inr ds"
    and len: "length rs = length (chunk_metadatas c (component_args c self) ds)"
    and tx: "map o_text rs = concat (map (chunks_of c (component_args c self)) ds)"
    by (elim exE conjE)
  from inp inp' have ds: "ds = vds" by simp
  from len have l: "length rs = sum_list (map (\<lambda>d. length (chunks_of c (component_args c self) d)) vds)"
    by (simp add: length_chunk_metadatas ds)
  from tx have t: "map o_text rs = concat (map (chunks_of c (component_args c self)) vds)"
    by (simp add: ds)
  from r l t
  show "\<exists>rs w'. split_text c self w = Inr (rs, w')
         \<and> length rs = sum_list (map (\<lambda>d. length (chunks_of c (component_args c self) d)) vds)
         \<and> map o_text rs = concat (map (chunks_of c (component_args c self)) vds)"
    by (intro exI [of _ rs] exI [of _ w'] conjI)
qed

text \<open>C6 on the documents \<open>A.B\<close> and \<open>C\<close>, split on \<open>.\<close>: two chunks and one chunk,
  three records, with the texts of the chunks in order.\<close>

theorem record_count_witness:
  "\<exists>rs w'. split_text libraries
       (dot_component (ListIn [DataElem (text_data ''A.B''), DataElem (text_data ''C'')])) world0
       = Inr (rs, w')
     \<and> length rs = 3
     \<and> map o_text rs = [''A'', ''B'', ''C'']"
proof -
  let ?self = "dot_component (ListIn [DataElem (text_data ''A.B''), DataElem (text_data ''C'')])"
  let ?vds = "[\<lparr>v_page_content = ''A.B'', v_metadata = []\<rparr>, \<lparr>v_page_content = ''C'', v_metadata = []\<rparr>]"
  have ok: "\<forall>d\<in>set ?vds. \<exists>chunks.
      splitter_split_text libraries (component_args libraries ?self) (v_page_content d) = Inr chunks"
    by (simp add: dot_split_AB dot_split_C)
  have n: "sum_list (map (\<lambda>d. length (chunks_of libraries (component_args libraries ?self) d)) ?vds) = 3"
    by (simp add: chunks_of_def dot_split_AB dot_split_C)
  have t: "concat (map (chunks_of libraries (component_args libraries ?self)) ?vds) = [''A'', ''B'', ''C'']"
    by (simp add: chunks_of_def dot_split_AB dot_split_C)
  have pre: "input_documents libraries ?self = Inr ?vds
        \<and> splitter_init libraries (component_args libraries ?self) = None
        \<and> (\<forall>d\<in>set ?vds. \<exists>chunks.
              splitter_split_text libraries (component_args libraries ?self) (v_page_content d)
                = Inr chunks)"
    using two_documents dot_init ok by (intro conjI)
  from conjunct2 [OF record_count [of libraries ?self world0 "[]" world0 ?vds], rule_format, OF pre]
  show ?thesis unfolding n t .
qed

section \<open>The chunk index\<close>

lemma chunk_index_of_record:
  "o_metadata r = json_dumps (stamped k fresh m) \<Longrightarrow> chunk_index_of r = Some (PInt (int k))"
  by (simp add: chunk_index_of_def metadata_entry_json_dumps map_of_stamped)

lemma source_id_of_record:
  "o_metadata r = json_dumps (stamped k fresh m) \<Longrightarrow>
   source_id_of r = Some (case map_of m ''source_id'' of None \<Rightarrow> PStr fresh | Some v \<Rightarrow> jsonable v)"
  by (simp add: source_id_of_def metadata_entry_json_dumps map_of_stamped split: option.splits)

lemma chunk_indices:
  assumes "split_text c self w = Inr (rs, w')"
  shows "map chunk_index_of rs = map (\<lambda>k. Some (PInt (int k))) [0..<length rs]"
proof (rule nth_equalityI)
  show "length (map chunk_index_of rs) = length (map (\<lambda>k. Some (PInt (int k))) [0..<length rs])"
    by simp
next
  fix i assume "i < length (map chunk_index_of rs)"
  then have i: "i < length rs" by simp
  from split_text_records [OF assms] i obtain fresh m
    where "o_metadata (rs ! i) = json_dumps (stamped i fresh m)" by blast
  from chunk_index_of_record [OF this] i
  show "map chunk_index_of rs ! i = map (\<lambda>k. Some (PInt (int k))) [0..<length rs] ! i"
    by simp
qed

lemma group_bounds:
  assumes "j < length ds"
  shows "group_offset c args ds j + group_size c args ds j \<le> length (chunk_metadatas c args ds)"
proof -
  have "chunk_metadatas c args ds
      = chunk_metadatas c args (take j ds) @ chunk_metadatas c args (drop j ds)"
    unfolding chunk_metadatas_def by (simp only: map_append [symmetric] concat_append [symmetric]
        append_take_drop_id)
  moreover have "drop j ds = ds ! j # drop (Suc j) ds"
    using assms by (simp add: Cons_nth_drop_Suc)
  ultimately show ?thesis
    by (simp add: group_offset_def group_size_def chunk_metadatas_def)
qed

text \<open>
  C1, as the code has it. The chunks of all documents are enumerated in one pass, so
  the \<open>chunk_index\<close> in the metadata of the \<open>k\<close>-th emitted record is \<open>k\<close>: the
  indices are contiguous and ascending from 0 over the whole batch. Within the group
  of one document they are contiguous and ascending too, starting at the number of
  records emitted for the documents before it.
\<close>

theorem chunk_index_is_position:
  assumes "split_text c self w = Inr (rs, w')"
  shows "map chunk_index_of rs = map (\<lambda>k. Some (PInt (int k))) [0..<length rs]
    \<and> (\<exists>ds. input_documents c self = Inr ds
         \<and> (\<forall>j<length ds.
               map chunk_index_of
                 (take (group_size c (component_args c self) ds j)
                    (drop (group_offset c (component_args c self) ds j) rs))
               = map (\<lambda>k. Some (PInt (int k)))
                   [group_offset c (component_args c self) ds j
                    ..< group_offset c (component_args c self) ds j
                        + group_size c (component_args c self) ds j]))"
proof -
  let ?args = "component_args c self"
  note all = chunk_indices [OF assms]
  from split_text_records [OF assms] obtain ds where inp: "input_documents c self = Inr ds"
    and len: "length rs = length (chunk_metadatas c ?args ds)" by blast
  have "\<forall>j<length ds.
          map chunk_index_of (take (group_size c ?args ds j) (drop (group_offset c ?args ds j) rs))
          = map (\<lambda>k. Some (PInt (int k)))
              [group_offset c ?args ds j ..< group_offset c ?args ds j + group_size c ?args ds j]"
  proof (intro allI impI)
    fix j assume j: "j < length ds"
    let ?o = "group_offset c ?args ds j" and ?n = "group_size c ?args ds j"
    have b: "?o + ?n \<le> length rs" using group_bounds [OF j, of c ?args] len by simp
    have "map chunk_index_of (take ?n (drop ?o rs)) = take ?n (drop ?o (map chunk_index_of rs))"
      by (simp add: take_map drop_map)
    also have "\<dots> = map (\<lambda>k. Some (PInt (int k))) (take ?n (drop ?o [0..<length rs]))"
      by (simp add: all take_map drop_map)
    also have "take ?n (drop ?o [0..<length rs]) = [?o ..< ?o + ?n]"
      using b by (simp add: drop_upt take_upt)
    finally show "map chunk_index_of (take ?n (drop ?o rs))
        = map (\<lambda>k. Some (PInt (int k))) [?o ..< ?o + ?n]" .
  qed
  with all inp show ?thesis by blast
qed

text \<open>C1 on the documents \<open>A.B\<close> and \<open>C\<close>, split on \<open>.\<close>: the run returns records,
  numbered by their position.\<close>

theorem chunk_index_is_position_witness:
  "\<exists>rs w'. split_text libraries
       (dot_component (ListIn [DataElem (text_data ''A.B''), DataElem (text_data ''C'')])) world0
       = Inr (rs, w')
     \<and> map chunk_index_of rs = map (\<lambda>k. Some (PInt (int k))) [0..<length rs]"
proof -
  let ?self = "dot_component (ListIn [DataElem (text_data ''A.B''), DataElem (text_data ''C'')])"
  let ?vds = "[\<lparr>v_page_content = ''A.B'', v_metadata = []\<rparr>, \<lparr>v_page_content = ''C'', v_metadata = []\<rparr>]"
  have ok: "\<forall>d\<in>set ?vds. \<exists>chunks.
      splitter_split_text libraries (component_args libraries ?self) (v_page_content d) = Inr chunks"
    by (simp add: dot_split_AB dot_split_C)
  obtain rs w' where r: "split_text libraries ?self world0 = Inr (rs, w')"
    using split_text_succeeds [OF two_documents dot_init ok] by blast
  from chunk_index_is_position [OF r] r show ?thesis by blast
qed

text \<open>
  C1, as stated, fails: of two documents \<open>A\<close> and \<open>B\<close>, each one chunk long, the
  only chunk of the second carries \<open>chunk_index\<close> 1, not 0.
\<close>

theorem chunk_index_runs_across_documents:
  "\<not> isl (split_text libraries
            (default_component (ListIn [DataElem (text_data ''A''), DataElem (text_data ''B'')]))
            world0)
   \<and> map o_text (fst (projr (split_text libraries
            (default_component (ListIn [DataElem (text_data ''A''), DataElem (text_data ''B'')]))
            world0)))
     = [''A'', ''B'']
   \<and> map chunk_index_of (fst (projr (split_text libraries
            (default_component (ListIn [DataElem (text_data ''A''), DataElem (text_data ''B'')]))
            world0)))
     = [Some (PInt 0), Some (PInt 1)]"
proof -
  let ?self = "default_component (ListIn [DataElem (text_data ''A''), DataElem (text_data ''B'')])"
  let ?vds = "[\<lparr>v_page_content = ''A'', v_metadata = []\<rparr>, \<lparr>v_page_content = ''B'', v_metadata = []\<rparr>]"
  have ok: "\<forall>d\<in>set ?vds. \<exists>chunks.
      splitter_split_text libraries (component_args libraries ?self) (v_page_content d) = Inr chunks"
    by (simp add: default_split_A default_split_B)
  obtain rs w' where r: "split_text libraries ?self world0 = Inr (rs, w')"
    using split_text_succeeds [OF two_single_chunk_documents default_init ok] by blast
  from split_text_records [OF r] two_single_chunk_documents
  have t: "map o_text rs = [''A'', ''B'']"
    by (auto simp: chunks_of_def default_split_A default_split_B)
  then have "length rs = 2" by (metis length_map length_Cons list.size(3) numeral_2_eq_2)
  with chunk_indices [OF r] have "map chunk_index_of rs = [Some (PInt 0), Some (PInt 1)]"
    by (simp add: upt_rec)
  with r t show ?thesis by simp
qed

section \<open>The source id\<close>

lemma source_ids:
  assumes "split_text c self w = Inr (rs, w')"
  shows "\<exists>ds. input_documents c self = Inr ds
     \<and> length rs = length (chunk_metadatas c (component_args c self) ds)
     \<and> (\<forall>k<length rs.
           source_id_of (rs ! k)
             = Some (case map_of (chunk_metadatas c (component_args c self) ds ! k) ''source_id'' of
                       None \<Rightarrow> PStr (uuid4 c (Suc (uuid_drawn w + 2 * k)))
                     | Some v \<Rightarrow> jsonable v))"
proof -
  from split_text_records [OF assms] obtain ds where inp: "input_documents c self = Inr ds"
    and len: "length rs = length (chunk_metadatas c (component_args c self) ds)"
    and recs: "\<And>k. k < length rs \<Longrightarrow> o_metadata (rs ! k)
                = json_dumps (stamped k (uuid4 c (Suc (uuid_drawn w + 2 * k)))
                    (chunk_metadatas c (component_args c self) ds ! k))"
    by blast
  have "\<forall>k<length rs.
           source_id_of (rs ! k)
             = Some (case map_of (chunk_metadatas c (component_args c self) ds ! k) ''source_id'' of
                       None \<Rightarrow> PStr (uuid4 c (Suc (uuid_drawn w + 2 * k)))
                     | Some v \<Rightarrow> jsonable v)"
    using source_id_of_record [OF recs] by blast
  with inp len show ?thesis by blast
qed

lemma chunk_metadatas_group:
  assumes "j < length ds" and "i < group_size c args ds j"
  shows "chunk_metadatas c args ds ! (group_offset c args ds j + i) = v_metadata (ds ! j)"
proof -
  have d: "drop j ds = ds ! j # drop (Suc j) ds"
    using assms(1) by (simp add: Cons_nth_drop_Suc)
  have "chunk_metadatas c args ds
      = chunk_metadatas c args (take j ds) @ chunk_metadatas c args (drop j ds)"
    unfolding chunk_metadatas_def by (simp only: map_append [symmetric] concat_append [symmetric]
        append_take_drop_id)
  also have "chunk_metadatas c args (drop j ds)
      = replicate (group_size c args ds j) (v_metadata (ds ! j))
        @ chunk_metadatas c args (drop (Suc j) ds)"
    unfolding d by (simp add: chunk_metadatas_def group_size_def)
  finally show ?thesis using assms(2)
    by (simp add: group_offset_def nth_append)
qed

text \<open>
  C2, as the code has it. The \<open>source_id\<close> of a record is looked up in the metadata
  of its own chunk, which is a copy of its document's metadata. When the document
  carries a \<open>source_id\<close>, every record of the document has that value. When it
  carries none, each record gets a UUID of its own: the \<open>k\<close>-th record of the
  invocation gets the UUID drawn right after its \<open>id\<close>, so the records of one
  document share a \<open>source_id\<close> only if the generator repeats a value.
\<close>

theorem source_id_per_chunk:
  assumes "split_text c self w = Inr (rs, w')"
  shows "\<exists>ds. input_documents c self = Inr ds
     \<and> (\<forall>j<length ds. \<forall>i<group_size c (component_args c self) ds j.
           source_id_of (rs ! (group_offset c (component_args c self) ds j + i))
             = Some (case map_of (v_metadata (ds ! j)) ''source_id'' of
                       None \<Rightarrow> PStr (uuid4 c (Suc (uuid_drawn w
                                 + 2 * (group_offset c (component_args c self) ds j + i))))
                     | Some v \<Rightarrow> jsonable v))"
proof -
  let ?args = "component_args c self"
  from source_ids [OF assms] obtain ds where inp: "input_documents c self = Inr ds"
    and len: "length rs = length (chunk_metadatas c ?args ds)"
    and ids: "\<And>k. k < length rs \<Longrightarrow> source_id_of (rs ! k)
             = Some (case map_of (chunk_metadatas c ?args ds ! k) ''source_id'' of
                       None \<Rightarrow> PStr (uuid4 c (Suc (uuid_drawn w + 2 * k)))
                     | Some v \<Rightarrow> jsonable v)"
    by blast
  have "\<forall>j<length ds. \<forall>i<group_size c ?args ds j.
           source_id_of (rs ! (group_offset c ?args ds j + i))
             = Some (case map_of (v_metadata (ds ! j)) ''source_id'' of
                       None \<Rightarrow> PStr (uuid4 c (Suc (uuid_drawn w + 2 * (group_offset c ?args ds j + i))))
                     | Some v \<Rightarrow> jsonable v)"
  proof (intro allI impI)
    fix j i assume j: "j < length ds" and i: "i < group_size c ?args ds j"
    have "group_offset c ?args ds j + i < length rs"
      using group_bounds [OF j, of c ?args] i len by simp
    from ids [OF this] chunk_metadatas_group [OF j i]
    show "source_id_of (rs ! (group_offset c ?args ds j + i))
             = Some (case map_of (v_metadata (ds ! j)) ''source_id'' of
                       None \<Rightarrow> PStr (uuid4 c (Suc (uuid_drawn w + 2 * (group_offset c ?args ds j + i))))
                     | Some v \<Rightarrow> jsonable v)"
      by simp
  qed
  with inp show ?thesis by blast
qed

lemma one_document_AB:
  "input_documents libraries (dot_component (DataIn (text_data ''A.B'')))
     = Inr [\<lparr>v_page_content = ''A.B'', v_metadata = []\<rparr>]"
  by (simp add: run_defs)

lemma counter_uuid4_1: "counter_uuid4 (Suc 0) = ''00000001-0000-4000-8000-000000000000''"
  by (simp add: counter_uuid4_def hex8_def hex_digit_def char_of_eq_iff_nat)

lemma counter_uuid4_3:
  "counter_uuid4 (Suc (Suc (Suc 0))) = ''00000003-0000-4000-8000-000000000000''"
  by (simp add: numeral_3_eq_3 [symmetric] counter_uuid4_def hex8_def hex_digit_def
      char_of_eq_iff_nat)

lemma run_AB:
  "\<exists>rs w'. split_text libraries (dot_component (DataIn (text_data ''A.B''))) world0 = Inr (rs, w')
     \<and> length rs = 2
     \<and> source_id_of (rs ! 0) = Some (PStr ''00000001-0000-4000-8000-000000000000'')
     \<and> source_id_of (rs ! 1) = Some (PStr ''00000003-0000-4000-8000-000000000000'')"
proof -
  let ?self = "dot_component (DataIn (text_data ''A.B''))"
  let ?vds = "[\<lparr>v_page_content = ''A.B'', v_metadata = []\<rparr>]"
  have ok: "\<forall>d\<in>set ?vds. \<exists>chunks.
      splitter_split_text libraries (component_args libraries ?self) (v_page_content d) = Inr chunks"
    by (simp add: dot_split_AB)
  obtain rs w' where r: "split_text libraries ?self world0 = Inr (rs, w')"
    using split_text_succeeds [OF one_document_AB dot_init ok] by blast
  have cm: "chunk_metadatas libraries (component_args libraries ?self) ?vds = [[], []]"
    by (simp add: chunk_metadatas_def chunks_of_def dot_split_AB)
  from source_ids [OF r] one_document_AB cm
  have len: "length rs = 2"
    and ids: "\<And>k. k < 2 \<Longrightarrow> source_id_of (rs ! k)
        = Some (case map_of ([[], []] ! k) ''source_id'' of
                  None \<Rightarrow> PStr (uuid4 libraries (Suc (uuid_drawn world0 + 2 * k)))
                | Some v \<Rightarrow> jsonable v)"
    by auto
  have u: "uuid4 libraries = counter_uuid4" by (simp add: libraries_def)
  from ids [of 0] ids [of 1]
  have "source_id_of (rs ! 0) = Some (PStr ''00000001-0000-4000-8000-000000000000'')"
    and "source_id_of (rs ! 1) = Some (PStr ''00000003-0000-4000-8000-000000000000'')"
    by (simp_all add: u world0_def counter_uuid4_1 counter_uuid4_3)
  with r len show ?thesis by blast
qed

text \<open>C2 on the document \<open>A.B\<close>, split on \<open>.\<close>: the run returns records.\<close>

theorem source_id_per_chunk_witness:
  "\<exists>rs w'. split_text libraries (dot_component (DataIn (text_data ''A.B''))) world0 = Inr (rs, w')
     \<and> (\<exists>ds. input_documents libraries (dot_component (DataIn (text_data ''A.B''))) = Inr ds)"
proof -
  from run_AB obtain rs w'
    where r: "split_text libraries (dot_component (DataIn (text_data ''A.B''))) world0 = Inr (rs, w')"
    by blast
  from source_id_per_chunk [OF r] r show ?thesis by blast
qed

text \<open>
  C2, as stated, fails: the document \<open>A.B\<close>, with no \<open>source_id\<close> in its metadata,
  is split into two chunks, and their records carry two different \<open>source_id\<close>s.
\<close>

theorem source_id_differs_within_document:
  "\<not> isl (split_text libraries (dot_component (DataIn (text_data ''A.B''))) world0)
   \<and> map source_id_of
         (fst (projr (split_text libraries (dot_component (DataIn (text_data ''A.B''))) world0)))
     = [Some (PStr ''00000001-0000-4000-8000-000000000000''),
        Some (PStr ''00000003-0000-4000-8000-000000000000'')]"
proof -
  from run_AB obtain rs w'
    where r: "split_text libraries (dot_component (DataIn (text_data ''A.B''))) world0 = Inr (rs, w')"
      and len: "length rs = 2"
      and s0: "source_id_of (rs ! 0) = Some (PStr ''00000001-0000-4000-8000-000000000000'')"
      and s1: "source_id_of (rs ! 1) = Some (PStr ''00000003-0000-4000-8000-000000000000'')"
    by blast
  from len obtain a b where rs: "rs = [a, b]"
    by (cases rs; cases "tl rs") auto
  from s0 s1 r show ?thesis by (simp add: rs)
qed

section \<open>The metadata column\<close>

text \<open>
  C8, as the code has it. The \<open>metadata\<close> column of the \<open>k\<close>-th record parses as
  JSON to a mapping in which \<open>chunk_index\<close> is the integer \<open>k\<close>; \<open>source_id\<close>
  is the fresh UUID string when the chunk's metadata had no \<open>source_id\<close>, and the
  value that was there otherwise, as JSON gives it back (a string only if it was a
  string or an object the encoder turns into one); every key of the chunk's original
  metadata is a key of the mapping, and every other entry comes back as it was,
  unknown objects as their \<open>str()\<close>. Non-ASCII bytes are written and read unchanged.
\<close>

theorem metadata_round_trip:
  assumes "split_text c self w = Inr (rs, w')"
  shows "\<exists>ds. input_documents c self = Inr ds
     \<and> (\<forall>k<length rs. \<exists>m.
           json_loads (o_metadata (rs ! k)) = Some (PDict m)
           \<and> map_of m ''chunk_index'' = Some (PInt (int k))
           \<and> map_of m ''source_id''
               = Some (case map_of (chunk_metadatas c (component_args c self) ds ! k) ''source_id'' of
                         None \<Rightarrow> PStr (uuid4 c (Suc (uuid_drawn w + 2 * k)))
                       | Some v \<Rightarrow> jsonable v)
           \<and> fst ` set (chunk_metadatas c (component_args c self) ds ! k) \<subseteq> fst ` set m
           \<and> (\<forall>key. key \<noteq> ''chunk_index'' \<and> key \<noteq> ''source_id'' \<longrightarrow>
                 map_of m key
                   = map_option jsonable
                       (map_of (chunk_metadatas c (component_args c self) ds ! k) key)))"
proof -
  let ?args = "component_args c self"
  from split_text_records [OF assms] obtain ds where inp: "input_documents c self = Inr ds"
    and recs: "\<And>k. k < length rs \<Longrightarrow> o_metadata (rs ! k)
                = json_dumps (stamped k (uuid4 c (Suc (uuid_drawn w + 2 * k)))
                    (chunk_metadatas c ?args ds ! k))"
    by blast
  have "\<forall>k<length rs. \<exists>m.
           json_loads (o_metadata (rs ! k)) = Some (PDict m)
           \<and> map_of m ''chunk_index'' = Some (PInt (int k))
           \<and> map_of m ''source_id''
               = Some (case map_of (chunk_metadatas c ?args ds ! k) ''source_id'' of
                         None \<Rightarrow> PStr (uuid4 c (Suc (uuid_drawn w + 2 * k)))
                       | Some v \<Rightarrow> jsonable v)
           \<and> fst ` set (chunk_metadatas c ?args ds ! k) \<subseteq> fst ` set m
           \<and> (\<forall>key. key \<noteq> ''chunk_index'' \<and> key \<noteq> ''source_id'' \<longrightarrow>
                 map_of m key = map_option jsonable (map_of (chunk_metadatas c ?args ds ! k) key))"
  proof (intro allI impI)
    fix k assume k: "k < length rs"
    let ?orig = "chunk_metadatas c ?args ds ! k"
    let ?st = "stamped k (uuid4 c (Suc (uuid_drawn w + 2 * k))) ?orig"
    let ?m = "map (\<lambda>kv. (fst kv, jsonable (snd kv))) ?st"
    have l: "json_loads (o_metadata (rs ! k)) = Some (PDict ?m)"
      by (simp only: recs [OF k] json_loads_json_dumps)
    have keys: "fst ` set ?m = fst ` set ?st" by (simp add: image_image)
    have sub: "fst ` set ?orig \<subseteq> fst ` set ?m"
      unfolding keys keys_stamped by auto
    have ci: "map_of ?m ''chunk_index'' = Some (PInt (int k))"
      by (simp add: map_of_jsonable map_of_stamped)
    have si: "map_of ?m ''source_id''
        = Some (case map_of ?orig ''source_id'' of
                  None \<Rightarrow> PStr (uuid4 c (Suc (uuid_drawn w + 2 * k)))
                | Some v \<Rightarrow> jsonable v)"
      by (simp add: map_of_jsonable map_of_stamped split: option.splits)
    have ot: "\<forall>key. key \<noteq> ''chunk_index'' \<and> key \<noteq> ''source_id'' \<longrightarrow>
        map_of ?m key = map_option jsonable (map_of ?orig key)"
      by (simp add: map_of_jsonable map_of_stamped)
    show "\<exists>m. json_loads (o_metadata (rs ! k)) = Some (PDict m)
           \<and> map_of m ''chunk_index'' = Some (PInt (int k))
           \<and> map_of m ''source_id''
               = Some (case map_of ?orig ''source_id'' of
                         None \<Rightarrow> PStr (uuid4 c (Suc (uuid_drawn w + 2 * k)))
                       | Some v \<Rightarrow> jsonable v)
           \<and> fst ` set ?orig \<subseteq> fst ` set m
           \<and> (\<forall>key. key \<noteq> ''chunk_index'' \<and> key \<noteq> ''source_id'' \<longrightarrow>
                 map_of m key = map_option jsonable (map_of ?orig key))"
      by (intro exI [of _ ?m] conjI l ci si sub ot)
  qed
  then show ?thesis by (intro exI [of _ ds] conjI inp)
qed

lemma numbered_document:
  "input_documents libraries (default_component (DataIn numbered_data))
     = Inr [\<lparr>v_page_content = ''A'', v_metadata = [(''source_id'', PInt 7)]\<rparr>]"
  by (simp add: run_defs numbered_data_def)

lemma run_numbered:
  "\<exists>rs w'. split_text libraries (default_component (DataIn numbered_data)) world0 = Inr (rs, w')
     \<and> length rs = 1 \<and> source_id_of (rs ! 0) = Some (PInt 7)"
proof -
  let ?self = "default_component (DataIn numbered_data)"
  let ?vds = "[\<lparr>v_page_content = ''A'', v_metadata = [(''source_id'', PInt 7)]\<rparr>]"
  have ok: "\<forall>d\<in>set ?vds. \<exists>chunks.
      splitter_split_text libraries (component_args libraries ?self) (v_page_content d) = Inr chunks"
    by (simp add: default_split_A)
  obtain rs w' where r: "split_text libraries ?self world0 = Inr (rs, w')"
    using split_text_succeeds [OF numbered_document default_init ok] by blast
  have cm: "chunk_metadatas libraries (component_args libraries ?self) ?vds = [[(''source_id'', PInt 7)]]"
    by (simp add: chunk_metadatas_def chunks_of_def default_split_A)
  from source_ids [OF r] numbered_document cm
  have len: "length rs = 1"
    and ids: "\<And>k. k < 1 \<Longrightarrow> source_id_of (rs ! k)
        = Some (case map_of ([[(''source_id'', PInt 7)]] ! k) ''source_id'' of
                  None \<Rightarrow> PStr (uuid4 libraries (Suc (uuid_drawn world0 + 2 * k)))
                | Some v \<Rightarrow> jsonable v)"
    by auto
  from ids [of 0] have "source_id_of (rs ! 0) = Some (PInt 7)" by simp
  with r len show ?thesis by blast
qed

text \<open>C8 on a record whose data carries a \<open>source_id\<close>: the run returns records.\<close>

theorem metadata_round_trip_witness:
  "\<exists>rs w'. split_text libraries (default_component (DataIn numbered_data)) world0 = Inr (rs, w')
     \<and> (\<exists>ds. input_documents libraries (default_component (DataIn numbered_data)) = Inr ds)"
proof -
  from run_numbered obtain rs w'
    where r: "split_text libraries (default_component (DataIn numbered_data)) world0 = Inr (rs, w')"
    by blast
  from metadata_round_trip [OF r]
  have "\<exists>ds. input_documents libraries (default_component (DataIn numbered_data)) = Inr ds"
    by (elim exE conjE) (rule exI)
  with r show ?thesis by simp
qed

text \<open>
  C8, as stated, fails: a record whose data carries the integer 7 as \<open>source_id\<close>
  keeps it, and the \<open>source_id\<close> read back from the JSON is the integer 7, not a
  string.
\<close>

theorem source_id_not_a_string:
  "\<not> isl (split_text libraries (default_component (DataIn numbered_data)) world0)
   \<and> map source_id_of
         (fst (projr (split_text libraries (default_component (DataIn numbered_data)) world0)))
     = [Some (PInt 7)]"
proof -
  from run_numbered obtain rs w'
    where r: "split_text libraries (default_component (DataIn numbered_data)) world0 = Inr (rs, w')"
      and len: "length rs = 1" and s0: "source_id_of (rs ! 0) = Some (PInt 7)"
    by blast
  from len obtain a where rs: "rs = [a]" by (cases rs) auto
  from s0 r show ?thesis by (simp add: rs)
qed

section \<open>The scenario of the specification\<close>

text \<open>
  C5. One record with the text \<open>A.B.C\<close>, the separator \<open>.\<close>, a chunk size of 1,
  no overlap and \<open>keep_separator\<close> \<open>False\<close>: the invocation returns exactly three
  records, with the texts \<open>A\<close>, \<open>B\<close>, \<open>C\<close> in that order and the chunk indices
  0, 1, 2, whatever the UUIDs, the clock and the store are. The splitting is that
  of the character splitter as modelled above.
\<close>

theorem scenario_a_b_c:
  "\<exists>rs w'.
     split_text (libraries\<lparr>uuid4 := u, utcnow := t\<rparr>) (dot_component (DataIn (text_data ''A.B.C''))) w
       = Inr (rs, w')
     \<and> map o_text rs = [''A'', ''B'', ''C'']
     \<and> map chunk_index_of rs = [Some (PInt 0), Some (PInt 1), Some (PInt 2)]"
proof -
  let ?L = "libraries\<lparr>uuid4 := u, utcnow := t\<rparr>"
  let ?self = "dot_component (DataIn (text_data ''A.B.C''))"
  let ?vds = "[\<lparr>v_page_content = ''A.B.C'', v_metadata = []\<rparr>]"
  have args: "component_args ?L ?self
     = \<lparr>sp_chunk_overlap = 0, sp_chunk_size = 1, sp_separator = ''.'',
        sp_keep_separator = KeepBool False\<rparr>"
    by (simp add: run_defs)
  have inp: "input_documents ?L ?self = Inr ?vds"
    by (simp add: run_defs)
  have ini: "splitter_init ?L (component_args ?L ?self) = None"
    unfolding args by (simp add: run_defs)
  have sp: "splitter_split_text ?L (component_args ?L ?self) ''A.B.C'' = Inr [''A'', ''B'', ''C'']"
    unfolding args by (simp add: run_defs)
  have ok: "\<forall>d\<in>set ?vds. \<exists>chunks.
      splitter_split_text ?L (component_args ?L ?self) (v_page_content d) = Inr chunks"
    using sp by simp
  obtain rs w' where r: "split_text ?L ?self w = Inr (rs, w')"
    using split_text_succeeds [OF inp ini ok] by blast
  from split_text_records [OF r] inp
  have tx: "map o_text rs = [''A'', ''B'', ''C'']"
    using sp by (auto simp: chunks_of_def)
  then have "length rs = 3" by (metis length_map length_Cons list.size(3) numeral_3_eq_3)
  with chunk_indices [OF r]
  have "map chunk_index_of rs = [Some (PInt 0), Some (PInt 1), Some (PInt 2)]"
    by (simp add: upt_rec)
  with r tx show ?thesis by (intro exI conjI)
qed

section \<open>Record ids\<close>

lemma is_hex_hex_digit: "k < 16 \<Longrightarrow> is_hex (hex_digit k)"
  by (auto simp: is_hex_def is_digit_def hex_digit_def)

lemma is_uuid4_counter_uuid4: "is_uuid4 (counter_uuid4 n)"
  by (simp add: is_uuid4_def counter_uuid4_def hex8_def is_hex_hex_digit)
     (simp add: is_hex_def is_digit_def)

text \<open>
  C9. The record mapper draws the \<open>id\<close> of the \<open>k\<close>-th record from the generator
  on its own, as the \<open>2k\<close>-th UUID of the run (the UUID after it goes to the default
  of \<open>source_id\<close>). So when the generator gives well-formed version 4 UUIDs and does
  not repeat itself within the run, every \<open>id\<close> is a well-formed version 4 UUID and
  the ids of one invocation are pairwise distinct.
\<close>

theorem record_ids_fresh:
  assumes "docs_to_oracle_data c docs w = (rs, w')"
    and "\<forall>k<2 * length docs. is_uuid4 (uuid4 c (uuid_drawn w + k))"
    and "distinct (map (uuid4 c) [uuid_drawn w ..< uuid_drawn w + 2 * length docs])"
  shows "length rs = length docs
    \<and> (\<forall>k<length rs. o_id (rs ! k) = uuid4 c (uuid_drawn w + 2 * k))
    \<and> (\<forall>r\<in>set rs. is_uuid4 (o_id r))
    \<and> distinct (map o_id rs)"
proof -
  let ?n = "uuid_drawn w"
  from assms(1) have en: "enumerate_docs c 0 docs w = (rs, w')"
    by (simp add: docs_to_oracle_data_def)
  from enumerate_docs_counters [OF en]
  have len: "length rs = length docs"
    and ids: "\<And>k. k < length docs \<Longrightarrow> o_id (rs ! k) = uuid4 c (?n + 2 * k)"
    by simp_all
  have valid: "\<forall>r\<in>set rs. is_uuid4 (o_id r)"
  proof
    fix r assume "r \<in> set rs"
    then obtain k where k: "k < length rs" and r: "r = rs ! k" by (auto simp: in_set_conv_nth)
    then have "2 * k < 2 * length docs" using len by simp
    with assms(2) have "is_uuid4 (uuid4 c (?n + 2 * k))" by blast
    then show "is_uuid4 (o_id r)" using ids k len r by simp
  qed
  have inj: "inj_on (uuid4 c) {?n ..< ?n + 2 * length docs}"
    using assms(3) by (simp add: distinct_map)
  have m: "map o_id rs = map (\<lambda>k. uuid4 c (?n + 2 * k)) [0..<length docs]"
    by (rule nth_equalityI) (simp_all add: len ids)
  have "inj_on (\<lambda>k. uuid4 c (?n + 2 * k)) (set [0..<length docs])"
  proof (rule inj_onI)
    fix x y assume x: "x \<in> set [0..<length docs]" and y: "y \<in> set [0..<length docs]"
      and e: "uuid4 c (?n + 2 * x) = uuid4 c (?n + 2 * y)"
    from x y have "?n + 2 * x \<in> {?n ..< ?n + 2 * length docs}"
      "?n + 2 * y \<in> {?n ..< ?n + 2 * length docs}" by auto
    from inj_onD [OF inj e this] show "x = y" by simp
  qed
  then have "distinct (map o_id rs)" unfolding m by (simp add: distinct_map)
  with len ids valid show ?thesis by simp
qed

text \<open>C9 on two chunks, with the UUIDs of the concrete runs: two records, with distinct
  well-formed ids.\<close>

theorem record_ids_fresh_witness:
  "length (fst (docs_to_oracle_data libraries two_chunks world0)) = 2
   \<and> distinct (map o_id (fst (docs_to_oracle_data libraries two_chunks world0)))
   \<and> is_uuid4 (o_id (fst (docs_to_oracle_data libraries two_chunks world0) ! 0))
   \<and> is_uuid4 (o_id (fst (docs_to_oracle_data libraries two_chunks world0) ! 1))"
proof -
  let ?rs = "fst (docs_to_oracle_data libraries two_chunks world0)"
  have r: "docs_to_oracle_data libraries two_chunks world0
      = (?rs, snd (docs_to_oracle_data libraries two_chunks world0))" by simp
  have v: "\<forall>k<2 * length two_chunks. is_uuid4 (uuid4 libraries (uuid_drawn world0 + k))"
    by (simp add: libraries_def is_uuid4_counter_uuid4)
  have d: "distinct (map (uuid4 libraries)
      [uuid_drawn world0 ..< uuid_drawn world0 + 2 * length two_chunks])"
    by (simp add: libraries_def world0_def two_chunks_def upt_rec counter_uuid4_def hex8_def
        hex_digit_def char_of_eq_iff_nat)
  from record_ids_fresh [OF r v d]
  have "length ?rs = 2" and "\<forall>r\<in>set ?rs. is_uuid4 (o_id r)" and "distinct (map o_id ?rs)"
    by (simp_all add: two_chunks_def)
  then show ?thesis by simp
qed

section \<open>The metadata object is changed in place\<close>

text \<open>
  C10. For chunk documents that hold a metadata dict, the record mapper creates no
  dict: the \<open>source_metadata\<close> of each record is the very dict object its chunk
  holds, which after the run has the keys \<open>chunk_index\<close> and \<open>source_id\<close> on top
  of the keys it had, so whoever else holds that object sees them; the dicts no
  chunk holds are left as they were.
\<close>

theorem metadata_mutated_in_place:
  assumes "\<forall>d\<in>set docs. metadata d \<noteq> None"
    and "docs_to_oracle_data c docs w = (rs, w')"
  shows "length rs = length docs
    \<and> next_addr w' = next_addr w
    \<and> (\<forall>i<length docs.
          metadata (docs ! i) = Some (o_source_metadata (rs ! i))
          \<and> ''chunk_index'' \<in> fst ` set (heap w' (o_source_metadata (rs ! i)))
          \<and> ''source_id'' \<in> fst ` set (heap w' (o_source_metadata (rs ! i)))
          \<and> fst ` set (heap w (o_source_metadata (rs ! i)))
              \<subseteq> fst ` set (heap w' (o_source_metadata (rs ! i))))
    \<and> (\<forall>a. Some a \<notin> metadata ` set docs \<longrightarrow> heap w' a = heap w a)"
proof -
  from assms(2) have en: "enumerate_docs c 0 docs w = (rs, w')"
    by (simp add: docs_to_oracle_data_def)
  have len: "length rs = length docs"
    using enumerate_docs_counters [OF en] by simp
  have na: "next_addr w' = next_addr w"
    using enumerate_docs_keys_grow [OF assms(1) en, of 0] by simp
  have each: "\<forall>i<length docs.
          metadata (docs ! i) = Some (o_source_metadata (rs ! i))
          \<and> ''chunk_index'' \<in> fst ` set (heap w' (o_source_metadata (rs ! i)))
          \<and> ''source_id'' \<in> fst ` set (heap w' (o_source_metadata (rs ! i)))
          \<and> fst ` set (heap w (o_source_metadata (rs ! i)))
              \<subseteq> fst ` set (heap w' (o_source_metadata (rs ! i)))"
  proof (intro allI impI)
    fix i assume i: "i < length docs"
    from enumerate_docs_in_place [OF assms(1) en i]
      enumerate_docs_keys_grow [OF assms(1) en, of "o_source_metadata (rs ! i)"]
    show "metadata (docs ! i) = Some (o_source_metadata (rs ! i))
          \<and> ''chunk_index'' \<in> fst ` set (heap w' (o_source_metadata (rs ! i)))
          \<and> ''source_id'' \<in> fst ` set (heap w' (o_source_metadata (rs ! i)))
          \<and> fst ` set (heap w (o_source_metadata (rs ! i)))
              \<subseteq> fst ` set (heap w' (o_source_metadata (rs ! i)))"
      by simp
  qed
  have frame: "\<forall>a. Some a \<notin> metadata ` set docs \<longrightarrow> heap w' a = heap w a"
  proof (intro allI impI)
    fix a assume a: "Some a \<notin> metadata ` set docs"
    let ?as = "map (\<lambda>d. the (metadata d)) docs"
    have m: "map metadata docs = map Some ?as"
      using assms(1) by (induction docs) auto
    have "a \<notin> set ?as"
    proof
      assume "a \<in> set ?as"
      then obtain d where d: "d \<in> set docs" "a = the (metadata d)" by auto
      with assms(1) have "metadata d = Some a" by auto
      with d a show False by (metis imageI)
    qed
    from enumerate_docs_frame [OF m en this] show "heap w' a = heap w a" .
  qed
  from len na each frame show ?thesis by (intro conjI)
qed

text \<open>C10 on two chunks: the first record's \<open>source_metadata\<close> is the first chunk's
  dict object, which has both keys after the run, and no dict was created.\<close>

theorem metadata_mutated_in_place_witness:
  "next_addr (snd (docs_to_oracle_data libraries two_chunks world0)) = next_addr world0
   \<and> metadata (two_chunks ! 0)
       = Some (o_source_metadata (fst (docs_to_oracle_data libraries two_chunks world0) ! 0))
   \<and> ''chunk_index'' \<in> fst ` set (heap (snd (docs_to_oracle_data libraries two_chunks world0))
         (o_source_metadata (fst (docs_to_oracle_data libraries two_chunks world0) ! 0)))
   \<and> ''source_id'' \<in> fst ` set (heap (snd (docs_to_oracle_data libraries two_chunks world0))
         (o_source_metadata (fst (docs_to_oracle_data libraries two_chunks world0) ! 0)))"
proof -
  let ?R = "docs_to_oracle_data libraries two_chunks world0"
  have r: "?R = (fst ?R, snd ?R)" by simp
  have s: "\<forall>d\<in>set two_chunks. metadata d \<noteq> None" by (simp add: two_chunks_def)
  have l: "0 < length two_chunks" by (simp add: two_chunks_def)
  note t = metadata_mutated_in_place [OF s r]
  have n: "next_addr (snd ?R) = next_addr world0"
    using t by (elim conjE)
  have e: "\<forall>i<length two_chunks.
          metadata (two_chunks ! i) = Some (o_source_metadata (fst ?R ! i))
          \<and> ''chunk_index'' \<in> fst ` set (heap (snd ?R) (o_source_metadata (fst ?R ! i)))
          \<and> ''source_id'' \<in> fst ` set (heap (snd ?R) (o_source_metadata (fst ?R ! i)))
          \<and> fst ` set (heap world0 (o_source_metadata (fst ?R ! i)))
              \<subseteq> fst ` set (heap (snd ?R) (o_source_metadata (fst ?R ! i)))"
    using t by (elim conjE)
  from spec [OF e, of 0] l have "metadata (two_chunks ! 0) = Some (o_source_metadata (fst ?R ! 0))
          \<and> ''chunk_index'' \<in> fst ` set (heap (snd ?R) (o_source_metadata (fst ?R ! 0)))
          \<and> ''source_id'' \<in> fst ` set (heap (snd ?R) (o_source_metadata (fst ?R ! 0)))
          \<and> fst ` set (heap world0 (o_source_metadata (fst ?R ! 0)))
              \<subseteq> fst ` set (heap (snd ?R) (o_source_metadata (fst ?R ! 0)))"
    by simp
  with n show ?thesis by simp
qed

end
